theory Spec2Isabelle
  imports Complex_Main "HOL-Library.Word" "HOL-Library.Sublist" "HOL-Library.Product_Lexorder"
begin

unbundle bit_operations_syntax

section \<open>Common data (src/types.ts)\<close>

text \<open>
  A JavaScript string is a sequence of 16-bit code units and \<open>length\<close> counts code units.
  \<open>ascii\<close> writes a literal of code units below 256 from an Isabelle string.
\<close>

type_synonym jsstring = "16 word list"

definition ascii :: "string \<Rightarrow> jsstring" where
  "ascii s = map of_char s"

text \<open>
  The errors of the library are plain \<open>Error\<close> objects that differ in their message;
  the constructors name the kinds:
  \<^item> \<open>InvalidArgument\<close>: "chunkSize must be positive", "chunkOverlap cannot be negative",
    "chunkOverlap must be less than chunkSize";
  \<^item> \<open>DimensionMismatch\<close>: "Vector dimension mismatch: ...", "Embedding dimension mismatch: ...";
  \<^item> \<open>InvalidFormat\<close>: "Invalid binary index format";
  \<^item> \<open>UnsupportedVersion\<close>: "Unsupported index version: ...";
  \<^item> \<open>RangeError\<close>, \<open>SyntaxError\<close>, \<open>TypeError\<close>: raised by the platform (a read outside
    the buffer, a misplaced typed-array view, text that is not JSON, a missing field).
\<close>

datatype error =
    InvalidArgument
  | DimensionMismatch
  | InvalidFormat
  | UnsupportedVersion
  | RangeError
  | SyntaxError
  | TypeError

text \<open>
  A JavaScript number. The special values of IEEE-754 arithmetic are modelled as they
  are, and so are the operations on them and on zero. A finite number is modelled by the
  real it denotes and a finite result is taken exactly: rounding, overflow and underflow
  of finite results are outside the model, and nothing below is concluded from the value
  of a finite result other than its order. The sign of zero is outside the model too
  (\<open>-0\<close> and \<open>+0\<close> are both \<open>Fin 0\<close>; they are \<open>===\<close> and differ only as divisors).
\<close>

datatype number = Fin real | PInf | NInf | NaN

fun num_neg :: "number \<Rightarrow> number" where
  "num_neg (Fin x) = Fin (- x)"
| "num_neg PInf = NInf"
| "num_neg NInf = PInf"
| "num_neg NaN = NaN"

fun num_add :: "number \<Rightarrow> number \<Rightarrow> number" where
  "num_add (Fin x) (Fin y) = Fin (x + y)"
| "num_add NaN _ = NaN"
| "num_add _ NaN = NaN"
| "num_add PInf NInf = NaN"
| "num_add NInf PInf = NaN"
| "num_add PInf _ = PInf"
| "num_add _ PInf = PInf"
| "num_add NInf _ = NInf"
| "num_add _ NInf = NInf"

definition num_sub :: "number \<Rightarrow> number \<Rightarrow> number" where
  "num_sub a b = num_add a (num_neg b)"

text \<open>An infinity times a finite number takes the sign of the product; times zero it is NaN.\<close>

definition inf_times :: "bool \<Rightarrow> real \<Rightarrow> number" where
  "inf_times positive x =
     (if x = 0 then NaN else if (0 < x) = positive then PInf else NInf)"

fun num_mul :: "number \<Rightarrow> number \<Rightarrow> number" where
  "num_mul (Fin x) (Fin y) = Fin (x * y)"
| "num_mul NaN _ = NaN"
| "num_mul _ NaN = NaN"
| "num_mul PInf (Fin y) = inf_times True y"
| "num_mul NInf (Fin y) = inf_times False y"
| "num_mul (Fin x) PInf = inf_times True x"
| "num_mul (Fin x) NInf = inf_times False x"
| "num_mul PInf PInf = PInf"
| "num_mul NInf NInf = PInf"
| "num_mul PInf NInf = NInf"
| "num_mul NInf PInf = NInf"

text \<open>
  Division. A zero divisor is taken as \<open>+0\<close>; the program divides only by a number that
  is not \<open>===\<close> to zero.
\<close>

fun num_div :: "number \<Rightarrow> number \<Rightarrow> number" where
  "num_div (Fin x) (Fin y) =
     (if y = 0 then (if x = 0 then NaN else if 0 < x then PInf else NInf) else Fin (x / y))"
| "num_div NaN _ = NaN"
| "num_div _ NaN = NaN"
| "num_div (Fin x) PInf = Fin 0"
| "num_div (Fin x) NInf = Fin 0"
| "num_div PInf (Fin y) = (if 0 \<le> y then PInf else NInf)"
| "num_div NInf (Fin y) = (if 0 \<le> y then NInf else PInf)"
| "num_div PInf PInf = NaN"
| "num_div PInf NInf = NaN"
| "num_div NInf PInf = NaN"
| "num_div NInf NInf = NaN"

fun num_sqrt :: "number \<Rightarrow> number" where
  "num_sqrt (Fin x) = (if x < 0 then NaN else Fin (sqrt x))"
| "num_sqrt PInf = PInf"
| "num_sqrt NInf = NaN"
| "num_sqrt NaN = NaN"

text \<open>\<open>a === b\<close>, \<open>a >= b\<close> and \<open>a > b\<close> on numbers: every comparison with NaN is false.\<close>

fun num_eq :: "number \<Rightarrow> number \<Rightarrow> bool" where
  "num_eq NaN _ = False"
| "num_eq _ NaN = False"
| "num_eq a b = (a = b)"

fun num_ge :: "number \<Rightarrow> number \<Rightarrow> bool" where
  "num_ge (Fin x) (Fin y) = (y \<le> x)"
| "num_ge NaN _ = False"
| "num_ge _ NaN = False"
| "num_ge PInf _ = True"
| "num_ge _ NInf = True"
| "num_ge NInf _ = False"
| "num_ge _ PInf = False"

fun num_gt :: "number \<Rightarrow> number \<Rightarrow> bool" where
  "num_gt (Fin x) (Fin y) = (y < x)"
| "num_gt NaN _ = False"
| "num_gt _ NaN = False"
| "num_gt PInf PInf = False"
| "num_gt NInf NInf = False"
| "num_gt PInf _ = True"
| "num_gt _ NInf = True"
| "num_gt NInf _ = False"
| "num_gt _ PInf = False"

text \<open>
  \<open>EmbeddedChunk\<close>: \<open>'m\<close> is the type of metadata objects (the optional field is absent
  at \<open>None\<close>), \<open>'n\<close> the type of the numbers of an embedding.
\<close>

record ('m, 'n) EmbeddedChunk =
  chunk_id :: jsstring
  content :: jsstring
  metadata :: "'m option"
  embedding :: "'n list"

record 'm Chunk =
  id_of :: jsstring
  content_of :: jsstring
  metadata_of :: "'m option"

text \<open>
  Counts (\<open>topK\<close>, \<open>dimensions\<close>, \<open>version\<close>, \<open>chunkSize\<close>, \<open>chunkOverlap\<close>) are modelled as
  integers; scores, thresholds and embedding entries are numbers.
\<close>

record 'm SearchResult =
  chunk :: "'m Chunk"
  score :: number

record 'm SearchOptions =
  topK :: "int option"
  threshold :: "number option"
  filter_opt :: "('m option \<Rightarrow> bool) option"

record ('m, 'n) SerializedIndex =
  si_version :: int
  si_model :: jsstring
  si_dimensions :: int
  si_chunks :: "('m, 'n) EmbeddedChunk list"

section \<open>The vector store (src/vector-store.ts)\<close>

text \<open>
  \<open>cosineSimilarity\<close>. The loop runs over the indices of \<open>a\<close>, and \<open>b\<close> has the same
  length; the accumulator holds \<open>dotProduct\<close>, \<open>normA\<close> and \<open>normB\<close>.
\<close>

fun cosine_loop :: "number list \<Rightarrow> number list \<Rightarrow> number \<times> number \<times> number
    \<Rightarrow> number \<times> number \<times> number" where
  "cosine_loop (x # xs) (y # ys) (dotProduct, normA, normB) =
     cosine_loop xs ys
       (num_add dotProduct (num_mul x y), num_add normA (num_mul x x),
        num_add normB (num_mul y y))"
| "cosine_loop _ _ acc = acc"

definition cosineSimilarity :: "number list \<Rightarrow> number list \<Rightarrow> error + number" where
  "cosineSimilarity a b =
     (if length a \<noteq> length b then Inl DimensionMismatch
      else (case cosine_loop a b (Fin 0, Fin 0, Fin 0) of
        (dotProduct, normA, normB) \<Rightarrow>
          (let magnitude = num_mul (num_sqrt normA) (num_sqrt normB)
           in if num_eq magnitude (Fin 0) then Inr (Fin 0)
              else Inr (num_div dotProduct magnitude))))"

definition INDEX_VERSION :: int where
  "INDEX_VERSION = 1"

record ('m, 'n) VectorStore =
  chunks :: "('m, 'n) EmbeddedChunk list"
  model :: jsstring
  dimensions :: int

text \<open>\<open>new VectorStore(model, dimensions)\<close>; the defaults are 'unknown' and 384.\<close>

definition new_store :: "jsstring option \<Rightarrow> int option \<Rightarrow> ('m, 'n) VectorStore" where
  "new_store m d =
     \<lparr>chunks = [],
      model = (case m of None \<Rightarrow> ascii ''unknown'' | Some x \<Rightarrow> x),
      dimensions = (case d of None \<Rightarrow> 384 | Some x \<Rightarrow> x)\<rparr>"

definition size_of :: "('m, 'n) VectorStore \<Rightarrow> nat" where
  "size_of s = length (chunks s)"

definition validateDimensions :: "('m, 'n) VectorStore \<Rightarrow> 'n list \<Rightarrow> error + unit" where
  "validateDimensions s e =
     (if int (length e) \<noteq> dimensions s then Inl DimensionMismatch else Inr ())"

text \<open>
  A method that mutates the store returns its outcome and the store as the call leaves it:
  a raise leaves the store as it was when the exception was thrown.
\<close>

definition add :: "('m, 'n) VectorStore \<Rightarrow> ('m, 'n) EmbeddedChunk
    \<Rightarrow> (error + unit) \<times> ('m, 'n) VectorStore" where
  "add s c =
     (case validateDimensions s (embedding c) of
        Inl e \<Rightarrow> (Inl e, s)
      | Inr _ \<Rightarrow> (Inr (), s\<lparr>chunks := chunks s @ [c]\<rparr>))"

fun addAll :: "('m, 'n) VectorStore \<Rightarrow> ('m, 'n) EmbeddedChunk list
    \<Rightarrow> (error + unit) \<times> ('m, 'n) VectorStore" where
  "addAll s [] = (Inr (), s)"
| "addAll s (c # cs) =
     (case add s c of
        (Inl e, s') \<Rightarrow> (Inl e, s')
      | (Inr _, s') \<Rightarrow> addAll s' cs)"

text \<open>\<open>findIndex\<close>: the first position whose element satisfies the predicate.\<close>

fun findIndex :: "('a \<Rightarrow> bool) \<Rightarrow> 'a list \<Rightarrow> nat option" where
  "findIndex p [] = None"
| "findIndex p (x # xs) =
     (if p x then Some 0 else map_option Suc (findIndex p xs))"

text \<open>\<open>xs.splice(i, 1)\<close> for an index inside the array.\<close>

definition splice1 :: "nat \<Rightarrow> 'a list \<Rightarrow> 'a list" where
  "splice1 i xs = take i xs @ drop (Suc i) xs"

definition remove :: "('m, 'n) VectorStore \<Rightarrow> jsstring \<Rightarrow> bool \<times> ('m, 'n) VectorStore" where
  "remove s i =
     (case findIndex (\<lambda>c. chunk_id c = i) (chunks s) of
        None \<Rightarrow> (False, s)
      | Some k \<Rightarrow> (True, s\<lparr>chunks := splice1 k (chunks s)\<rparr>))"

definition get :: "('m, 'n) VectorStore \<Rightarrow> jsstring \<Rightarrow> ('m, 'n) EmbeddedChunk option" where
  "get s i = find (\<lambda>c. chunk_id c = i) (chunks s)"

definition has :: "('m, 'n) VectorStore \<Rightarrow> jsstring \<Rightarrow> bool" where
  "has s i = list_ex (\<lambda>c. chunk_id c = i) (chunks s)"

definition clear :: "('m, 'n) VectorStore \<Rightarrow> ('m, 'n) VectorStore" where
  "clear s = s\<lparr>chunks := []\<rparr>"

text \<open>
  \<open>Array.prototype.sort(compare)\<close> is stable, and an element moves behind another only
  when the comparator is positive on the pair (a NaN from the comparator counts as 0).
  Insertion from the right end is that sort whenever the comparator is consistent.
\<close>

fun insort_cmp :: "('a \<Rightarrow> 'a \<Rightarrow> number) \<Rightarrow> 'a \<Rightarrow> 'a list \<Rightarrow> 'a list" where
  "insort_cmp cmp x [] = [x]"
| "insort_cmp cmp x (y # ys) =
     (if num_gt (cmp x y) (Fin 0) then y # insort_cmp cmp x ys else x # y # ys)"

definition js_sort :: "('a \<Rightarrow> 'a \<Rightarrow> number) \<Rightarrow> 'a list \<Rightarrow> 'a list" where
  "js_sort cmp xs = foldr (insort_cmp cmp) xs []"

text \<open>\<open>xs.slice(0, k)\<close> for an integer \<open>k\<close>: a negative \<open>k\<close> counts from the end.\<close>

definition slice0 :: "'a list \<Rightarrow> int \<Rightarrow> 'a list" where
  "slice0 xs k = (if k < 0 then take (nat (int (length xs) + k)) xs else take (nat k) xs)"

definition to_result :: "('m, number) EmbeddedChunk \<Rightarrow> number \<Rightarrow> 'm SearchResult" where
  "to_result c sc =
     \<lparr>chunk = \<lparr>id_of = chunk_id c, content_of = content c, metadata_of = metadata c\<rparr>,
      score = sc\<rparr>"

text \<open>\<open>filter && !filter(chunk.metadata)\<close>: the record is skipped.\<close>

definition rejected :: "('m option \<Rightarrow> bool) option \<Rightarrow> 'm option \<Rightarrow> bool" where
  "rejected f m = (case f of None \<Rightarrow> False | Some p \<Rightarrow> \<not> p m)"

text \<open>The loop of \<open>search\<close> over the stored records; \<open>results\<close> is the accumulator.\<close>

fun search_loop :: "('m option \<Rightarrow> bool) option \<Rightarrow> number \<Rightarrow> number list
    \<Rightarrow> 'm SearchResult list \<Rightarrow> ('m, number) EmbeddedChunk list
    \<Rightarrow> error + 'm SearchResult list" where
  "search_loop f th q results [] = Inr results"
| "search_loop f th q results (c # cs) =
     (if rejected f (metadata c) then search_loop f th q results cs
      else (case cosineSimilarity q (embedding c) of
        Inl e \<Rightarrow> Inl e
      | Inr sc \<Rightarrow>
          (if num_ge sc th then search_loop f th q (results @ [to_result c sc]) cs
           else search_loop f th q results cs)))"

definition topK_of :: "'m SearchOptions \<Rightarrow> int" where
  "topK_of opts = (case topK opts of None \<Rightarrow> 5 | Some k \<Rightarrow> k)"

definition threshold_of :: "'m SearchOptions \<Rightarrow> number" where
  "threshold_of opts = (case threshold opts of None \<Rightarrow> Fin 0 | Some t \<Rightarrow> t)"

definition by_score_desc :: "'m SearchResult \<Rightarrow> 'm SearchResult \<Rightarrow> number" where
  "by_score_desc a b = num_sub (score b) (score a)"

definition search :: "('m, number) VectorStore \<Rightarrow> number list \<Rightarrow> 'm SearchOptions
    \<Rightarrow> error + 'm SearchResult list" where
  "search s queryEmbedding opts =
     (case validateDimensions s queryEmbedding of
        Inl e \<Rightarrow> Inl e
      | Inr _ \<Rightarrow>
          (case search_loop (filter_opt opts) (threshold_of opts) queryEmbedding []
                  (chunks s) of
             Inl e \<Rightarrow> Inl e
           | Inr results \<Rightarrow> Inr (slice0 (js_sort by_score_desc results) (topK_of opts))))"

text \<open>
  The class invariant of the store: every stored embedding has the declared length.
  The constructor establishes it and every method keeps it (\<open>run_ops_store_ok\<close> below).
\<close>

definition store_ok :: "('m, 'n) VectorStore \<Rightarrow> bool" where
  "store_ok s = (\<forall>c \<in> set (chunks s). int (length (embedding c)) = dimensions s)"

text \<open>
  The records that a search ranks, in insertion order: those the filter accepts and whose
  score reaches the threshold.
\<close>

definition cosine_value :: "number list \<Rightarrow> number list \<Rightarrow> number" where
  "cosine_value a b = (case cosineSimilarity a b of Inl _ \<Rightarrow> NaN | Inr v \<Rightarrow> v)"

definition ranked :: "('m, number) VectorStore \<Rightarrow> number list \<Rightarrow> 'm SearchOptions
    \<Rightarrow> 'm SearchResult list" where
  "ranked s q opts =
     map (\<lambda>c. to_result c (cosine_value q (embedding c)))
       (filter (\<lambda>c. \<not> rejected (filter_opt opts) (metadata c)
                 \<and> num_ge (cosine_value q (embedding c)) (threshold_of opts))
          (chunks s))"

text \<open>
  The structural operations of the index, and a run of them from a given store that stops
  at the first operation that raises (\<open>None\<close>).
\<close>

datatype ('m, 'n) operation =
    Insert "('m, 'n) EmbeddedChunk"
  | Remove jsstring
  | Clear

fun run_ops :: "('m, 'n) VectorStore \<Rightarrow> ('m, 'n) operation list
    \<Rightarrow> ('m, 'n) VectorStore option" where
  "run_ops s [] = Some s"
| "run_ops s (Insert c # ops) =
     (case add s c of
        (Inl e, s') \<Rightarrow> None
      | (Inr _, s') \<Rightarrow> run_ops s' ops)"
| "run_ops s (Remove i # ops) = run_ops (snd (remove s i)) ops"
| "run_ops s (Clear # ops) = run_ops (clear s) ops"

definition unique_ids :: "('m, 'n) VectorStore \<Rightarrow> bool" where
  "unique_ids s = distinct (map chunk_id (chunks s))"

text \<open>Every inserted record carries an id that the store does not hold at that moment.\<close>

fun fresh_inserts :: "('m, 'n) VectorStore \<Rightarrow> ('m, 'n) operation list \<Rightarrow> bool" where
  "fresh_inserts s [] = True"
| "fresh_inserts s (Insert c # ops) =
     (\<not> has s (chunk_id c) \<and> fresh_inserts (snd (add s c)) ops)"
| "fresh_inserts s (Remove i # ops) = fresh_inserts (snd (remove s i)) ops"
| "fresh_inserts s (Clear # ops) = fresh_inserts (clear s) ops"

text \<open>
  A key that orders the numbers other than NaN from the largest to the smallest; the
  scores of ranked records are such numbers.
\<close>

definition score_key :: "number \<Rightarrow> nat \<times> real" where
  "score_key v = (case v of PInf \<Rightarrow> (0, 0) | Fin x \<Rightarrow> (1, - x) | NInf \<Rightarrow> (2, 0) | NaN \<Rightarrow> (3, 0))"

section \<open>The chunker (src/chunker.ts)\<close>

text \<open>
  White space as \<open>\s\<close> and \<open>trim\<close> take it: the white-space and line-terminator code
  units of ECMAScript.
\<close>

definition is_space :: "16 word \<Rightarrow> bool" where
  "is_space c \<longleftrightarrow>
     c \<in> {0x9, 0xA, 0xB, 0xC, 0xD, 0x20, 0xA0, 0x1680, 0x2028, 0x2029, 0x202F, 0x205F,
          0x3000, 0xFEFF}
     \<or> (0x2000 \<le> c \<and> c \<le> 0x200A)"

definition trim :: "jsstring \<Rightarrow> jsstring" where
  "trim s = rev (dropWhile is_space (rev (dropWhile is_space s)))"

text \<open>\<open>s.slice(i, j)\<close> for indices \<open>0 \<le> i\<close> and \<open>0 \<le> j\<close>.\<close>

definition js_slice :: "jsstring \<Rightarrow> nat \<Rightarrow> nat \<Rightarrow> jsstring" where
  "js_slice s i j = take (j - i) (drop i s)"

text \<open>
  A separator of \<open>split\<close> is given by its sticky matcher: for a string and a position,
  the length of the match that starts at that position, if there is one. \<open>split_loop\<close> is
  the loop of \<open>String.prototype.split\<close> (without capture groups and without limit):
  \<open>p\<close> is the start of the current piece and \<open>q\<close> the position tried.
\<close>

type_synonym matcher = "jsstring \<Rightarrow> nat \<Rightarrow> nat option"

function split_loop :: "matcher \<Rightarrow> jsstring \<Rightarrow> nat \<Rightarrow> nat \<Rightarrow> jsstring list" where
  "split_loop m s p q =
     (if q < length s then
        (case m s q of
           None \<Rightarrow> split_loop m s p (q + 1)
         | Some n \<Rightarrow>
             (let e = min (q + n) (length s)
              in if e = p then split_loop m s p (q + 1)
                 else js_slice s p q # split_loop m s e e))
      else [js_slice s p (length s)])"
  by pat_completeness auto
termination
  by (relation "measure (\<lambda>(m, s, p, q). 2 * (length s - q) + (if p \<noteq> q then 1 else 0))")
    (auto split: if_splits)

declare split_loop.simps [simp del]

definition js_split :: "matcher \<Rightarrow> jsstring \<Rightarrow> jsstring list" where
  "js_split m s =
     (if s = [] then (case m s 0 of None \<Rightarrow> [s] | Some _ \<Rightarrow> [])
      else split_loop m s 0 0)"

text \<open>The length of the run of code units that satisfy \<open>P\<close> from position \<open>q\<close>.\<close>

definition run_length :: "(16 word \<Rightarrow> bool) \<Rightarrow> jsstring \<Rightarrow> nat \<Rightarrow> nat" where
  "run_length P s q = length (takeWhile P (drop q s))"

text \<open>
  The matchers of a literal separator and of the three patterns of the chunker:
  \<open>/\n\n+/\<close>, \<open>/(?<=[.!?])\s+/\<close> and \<open>/\s+/\<close>.
\<close>

definition literal_match :: "jsstring \<Rightarrow> matcher" where
  "literal_match sep s q =
     (if take (length sep) (drop q s) = sep then Some (length sep) else None)"

definition PARAGRAPH_SPLIT :: matcher where
  "PARAGRAPH_SPLIT s q = (if 2 \<le> run_length (\<lambda>c. c = 0xA) s q then Some (run_length (\<lambda>c. c = 0xA) s q) else None)"

definition sentence_end :: "16 word \<Rightarrow> bool" where
  "sentence_end c \<longleftrightarrow> c = 0x2E \<or> c = 0x21 \<or> c = 0x3F"

definition SENTENCE_SPLIT :: matcher where
  "SENTENCE_SPLIT s q =
     (if 0 < q \<and> q \<le> length s \<and> sentence_end (s ! (q - 1)) \<and> 1 \<le> run_length is_space s q
      then Some (run_length is_space s q) else None)"

definition WORD_SPLIT :: matcher where
  "WORD_SPLIT s q = (if 1 \<le> run_length is_space s q then Some (run_length is_space s q) else None)"

text \<open>
  \<open>word.slice(i, i + maxSize)\<close> for \<open>i = 0, maxSize, ...\<close> below the length of the word.
  \<open>maxSize\<close> is positive in every call, since the options are validated first.
\<close>

function hard_slices :: "nat \<Rightarrow> jsstring \<Rightarrow> jsstring list" where
  "hard_slices maxSize word =
     (if word = [] \<or> maxSize = 0 then []
      else take maxSize word # hard_slices maxSize (drop maxSize word))"
  by pat_completeness auto
termination
  by (relation "measure (\<lambda>(n, w). length w)") auto

declare hard_slices.simps [simp del]

text \<open>The loop of \<open>splitByWords\<close> over the words, on \<open>(chunks, current)\<close>.\<close>

fun words_loop :: "nat \<Rightarrow> jsstring list \<times> jsstring \<Rightarrow> jsstring list
    \<Rightarrow> jsstring list \<times> jsstring" where
  "words_loop maxSize (pieces, current) [] = (pieces, current)"
| "words_loop maxSize (pieces, current) (word # ws) =
     (if maxSize < length word then
        words_loop maxSize
          ((if current \<noteq> [] then pieces @ [trim current] else pieces)
             @ hard_slices maxSize word, []) ws
      else
        (let candidate = (if current \<noteq> [] then current @ [0x20] @ word else word)
         in if length candidate \<le> maxSize then words_loop maxSize (pieces, candidate) ws
            else words_loop maxSize
                   (if current \<noteq> [] then pieces @ [trim current] else pieces, word) ws))"

definition splitByWords :: "jsstring \<Rightarrow> nat \<Rightarrow> jsstring list" where
  "splitByWords text maxSize =
     (case words_loop maxSize ([], []) (js_split WORD_SPLIT text) of
        (pieces, current) \<Rightarrow>
          (if trim current \<noteq> [] then pieces @ [trim current] else pieces))"

definition nonblank :: "jsstring \<Rightarrow> bool" where
  "nonblank s \<longleftrightarrow> trim s \<noteq> []"

definition splitByBoundary :: "jsstring \<Rightarrow> nat \<Rightarrow> jsstring list" where
  "splitByBoundary text maxSize =
     (let segments = filter nonblank (js_split PARAGRAPH_SPLIT text);
          needsSentenceSplit = list_ex (\<lambda>s. maxSize < length s) segments
      in if needsSentenceSplit then
           concat (map (\<lambda>segment.
             if length segment \<le> maxSize then [segment]
             else concat (map (\<lambda>sentence.
                    if length sentence \<le> maxSize then [sentence]
                    else splitByWords sentence maxSize)
                  (filter nonblank (js_split SENTENCE_SPLIT segment)))) segments)
         else segments)"

text \<open>\<open>s.search(/\s/)\<close>: the index of the first white space, if any.\<close>

definition search_space :: "jsstring \<Rightarrow> nat option" where
  "search_space s = findIndex is_space s"

definition getOverlapText :: "jsstring \<Rightarrow> nat \<Rightarrow> jsstring" where
  "getOverlapText text overlap =
     (if overlap = 0 \<or> length text \<le> overlap then []
      else (let tail = drop (length text - overlap) text
            in case search_space tail of
                 None \<Rightarrow> tail
               | Some wordBoundary \<Rightarrow>
                   (if 0 < wordBoundary \<and> wordBoundary + 1 < length tail
                    then drop (wordBoundary + 1) tail else tail)))"

text \<open>
  \<open>region.match(/[.!?]\s+/)\<close>: the leftmost position that holds a sentence end followed
  by white space, with the length of the match (the white space is taken greedily).
\<close>

fun sentence_match :: "jsstring \<Rightarrow> (nat \<times> nat) option" where
  "sentence_match [] = None"
| "sentence_match (c # cs) =
     (if sentence_end c \<and> cs \<noteq> [] \<and> is_space (hd cs)
      then Some (0, 1 + length (takeWhile is_space cs))
      else map_option (\<lambda>(i, n). (i + 1, n)) (sentence_match cs))"

text \<open>\<open>text.lastIndexOf(' ', target)\<close>: the last index at most \<open>target\<close> that holds a space.\<close>

definition lastIndexOf_space :: "jsstring \<Rightarrow> nat \<Rightarrow> nat option" where
  "lastIndexOf_space text target =
     (case filter (\<lambda>i. text ! i = 0x20) (rev [0 ..< min (target + 1) (length text)]) of
        [] \<Rightarrow> None
      | i # _ \<Rightarrow> Some i)"

definition findSplitPoint :: "jsstring \<Rightarrow> nat \<Rightarrow> nat" where
  "findSplitPoint text target =
     (if length text \<le> target then length text
      else (let searchStart = target - 50;
                searchEnd = min (length text) (target + 50);
                searchRegion = js_slice text searchStart searchEnd
            in case sentence_match searchRegion of
                 Some (index, n) \<Rightarrow> searchStart + index + n
               | None \<Rightarrow>
                   (case lastIndexOf_space text target of
                      Some lastSpace \<Rightarrow>
                        (if target < 2 * lastSpace then lastSpace + 1 else target)
                    | None \<Rightarrow> target)))"

text \<open>
  The inner loop of \<open>mergeSegments\<close>, on \<open>(pieces, overlapBuffer, current)\<close>. It may run
  forever; \<open>None\<close> is the loop that does not end.
\<close>

partial_function (option) split_while :: "nat \<Rightarrow> nat
    \<Rightarrow> jsstring list \<times> jsstring \<times> jsstring
    \<Rightarrow> (jsstring list \<times> jsstring \<times> jsstring) option" where
  "split_while chunkSize overlap st =
     (case st of (pieces, overlapBuffer, current) \<Rightarrow>
        if chunkSize < length current then
          (let splitPoint = findSplitPoint current chunkSize;
               piece = take splitPoint current;
               overlapBuffer' = getOverlapText piece overlap;
               remaining = trim (drop splitPoint current)
           in split_while chunkSize overlap
                (pieces @ [trim piece], overlapBuffer',
                 if overlapBuffer' \<noteq> [] then overlapBuffer' @ [0x20] @ remaining
                 else remaining))
        else Some (pieces, overlapBuffer, current))"

declare split_while.simps [code]

text \<open>The loop of \<open>mergeSegments\<close> over the segments.\<close>

fun merge_loop :: "nat \<Rightarrow> nat \<Rightarrow> jsstring list \<times> jsstring \<times> jsstring
    \<Rightarrow> jsstring list \<Rightarrow> (jsstring list \<times> jsstring \<times> jsstring) option" where
  "merge_loop chunkSize overlap st [] = Some st"
| "merge_loop chunkSize overlap (pieces, overlapBuffer, current) (segment # segments) =
     (let candidate = current @ (if current \<noteq> [] then [0xA, 0xA] else []) @ segment
      in if length candidate \<le> chunkSize
         then merge_loop chunkSize overlap (pieces, overlapBuffer, candidate) segments
         else
           (let pieces' = (if current \<noteq> [] then pieces @ [trim current] else pieces);
                overlapBuffer' =
                  (if current \<noteq> [] \<and> 0 < overlap then getOverlapText current overlap
                   else overlapBuffer);
                current' =
                  (if overlapBuffer' \<noteq> []
                      \<and> length segment + length overlapBuffer' + 1 \<le> chunkSize
                   then overlapBuffer' @ [0x20] @ segment else segment)
            in case split_while chunkSize overlap (pieces', overlapBuffer', current') of
                 None \<Rightarrow> None
               | Some st' \<Rightarrow> merge_loop chunkSize overlap st' segments))"

definition mergeSegments :: "jsstring list \<Rightarrow> nat \<Rightarrow> nat \<Rightarrow> jsstring list option" where
  "mergeSegments segments chunkSize overlap =
     (if segments = [] then Some []
      else (case merge_loop chunkSize overlap ([], [], []) segments of
        None \<Rightarrow> None
      | Some (pieces, overlapBuffer, current) \<Rightarrow>
          Some (if trim current \<noteq> [] then pieces @ [trim current] else pieces)))"

text \<open>
  A regular expression given by the caller may have capture groups. Its matcher gives the
  length of the match and, for each group, the range of the text that the group
  captured, or \<open>None\<close> for a group that took no part in the match. \<open>split\<close> splices the
  captures into its result after the piece that the match ends; the capture of a group
  that took no part is \<open>undefined\<close>, here \<open>None\<close>.
\<close>

type_synonym capture_matcher = "jsstring \<Rightarrow> nat \<Rightarrow> (nat \<times> (nat \<times> nat) option list) option"

definition captures :: "jsstring \<Rightarrow> (nat \<times> nat) option list \<Rightarrow> jsstring option list" where
  "captures s groups = map (map_option (\<lambda>(i, j). js_slice s i j)) groups"

function split_loop_captures :: "capture_matcher \<Rightarrow> jsstring \<Rightarrow> nat \<Rightarrow> nat
    \<Rightarrow> jsstring option list" where
  "split_loop_captures m s p q =
     (if q < length s then
        (case m s q of
           None \<Rightarrow> split_loop_captures m s p (q + 1)
         | Some (n, groups) \<Rightarrow>
             (let e = min (q + n) (length s)
              in if e = p then split_loop_captures m s p (q + 1)
                 else Some (js_slice s p q) # captures s groups @ split_loop_captures m s e e))
      else [Some (js_slice s p (length s))])"
  by pat_completeness auto
termination
  by (relation "measure (\<lambda>(m, s, p, q). 2 * (length s - q) + (if p \<noteq> q then 1 else 0))")
    (auto split: if_splits)

declare split_loop_captures.simps [simp del]

definition js_split_captures :: "capture_matcher \<Rightarrow> jsstring \<Rightarrow> jsstring option list" where
  "js_split_captures m s =
     (if s = [] then (case m s 0 of None \<Rightarrow> [Some s] | Some _ \<Rightarrow> [])
      else split_loop_captures m s 0 0)"

text \<open>
  \<open>pieces.filter(s => s.trim())\<close> on pieces that may be \<open>undefined\<close>: \<open>undefined.trim()\<close>
  raises \<open>TypeError\<close>.
\<close>

fun filter_trim :: "jsstring option list \<Rightarrow> error + jsstring list" where
  "filter_trim [] = Inr []"
| "filter_trim (None # xs) = Inl TypeError"
| "filter_trim (Some s # xs) =
     (case filter_trim xs of
        Inl e \<Rightarrow> Inl e
      | Inr segments \<Rightarrow> Inr (if nonblank s then s # segments else segments))"

text \<open>
  A separator is a string or a regular expression, the latter given by its matcher.
  \<open>split_filter\<close> is \<open>text.split(separator).filter(s => s.trim())\<close>.
\<close>

datatype separator = Literal jsstring | Pattern capture_matcher

fun split_filter :: "separator \<Rightarrow> jsstring \<Rightarrow> error + jsstring list" where
  "split_filter (Literal sep) text = Inr (filter nonblank (js_split (literal_match sep) text))"
| "split_filter (Pattern m) text = filter_trim (js_split_captures m text)"

record ChunkOptions =
  chunkSize :: "int option"
  chunkOverlap :: "int option"
  separator :: "separator option"

definition DEFAULT_CHUNK_SIZE :: int where
  "DEFAULT_CHUNK_SIZE = 512"

definition DEFAULT_CHUNK_OVERLAP :: int where
  "DEFAULT_CHUNK_OVERLAP = 50"

definition chunkSize_of :: "ChunkOptions \<Rightarrow> int" where
  "chunkSize_of opts = (case chunkSize opts of None \<Rightarrow> DEFAULT_CHUNK_SIZE | Some n \<Rightarrow> n)"

definition chunkOverlap_of :: "ChunkOptions \<Rightarrow> int" where
  "chunkOverlap_of opts =
     (case chunkOverlap opts of None \<Rightarrow> DEFAULT_CHUNK_OVERLAP | Some n \<Rightarrow> n)"

text \<open>
  \<open>if (separator)\<close>: an absent separator and the empty string are falsy, and the text is
  then chunked without a separator.
\<close>

definition truthy_separator :: "ChunkOptions \<Rightarrow> separator option" where
  "truthy_separator opts =
     (case separator opts of
        None \<Rightarrow> None
      | Some (Literal sep) \<Rightarrow> (if sep = [] then None else Some (Literal sep))
      | Some (Pattern m) \<Rightarrow> Some (Pattern m))"

text \<open>The result of \<open>chunkText\<close> is \<open>None\<close> when the call does not return.\<close>

definition chunkText :: "jsstring \<Rightarrow> ChunkOptions \<Rightarrow> (error + jsstring list) option" where
  "chunkText text opts =
     (let chunkSize = chunkSize_of opts; chunkOverlap = chunkOverlap_of opts
      in if chunkSize \<le> 0 then Some (Inl InvalidArgument)
         else if chunkOverlap < 0 then Some (Inl InvalidArgument)
         else if chunkSize \<le> chunkOverlap then Some (Inl InvalidArgument)
         else (case truthy_separator opts of
           Some sep \<Rightarrow>
             (case split_filter sep text of
                Inl e \<Rightarrow> Some (Inl e)
              | Inr segments \<Rightarrow>
                  (if list_all (\<lambda>s. int (length s) \<le> chunkSize) segments
                   then Some (Inr (map trim segments))
                   else map_option Inr
                          (mergeSegments segments (nat chunkSize) (nat chunkOverlap))))
         | None \<Rightarrow>
             (if int (length text) \<le> chunkSize
              then Some (Inr (if trim text \<noteq> [] then [trim text] else []))
              else map_option Inr
                     (mergeSegments (splitByBoundary text (nat chunkSize))
                        (nat chunkSize) (nat chunkOverlap)))))"

text \<open>
  The split by a regular-expression separator yields an \<open>undefined\<close> capture.
\<close>

definition undefined_capture :: "ChunkOptions \<Rightarrow> jsstring \<Rightarrow> bool" where
  "undefined_capture opts text \<longleftrightarrow>
     (case truthy_separator opts of
        Some (Pattern m) \<Rightarrow> None \<in> set (js_split_captures m text)
      | _ \<Rightarrow> False)"

text \<open>The pattern \<open>/(\r)?\n/\<close>: a line feed, with an optional carriage return captured.\<close>

definition optional_cr_newline :: capture_matcher where
  "optional_cr_newline s q =
     (if q + 1 < length s \<and> s ! q = 0xD \<and> s ! (q + 1) = 0xA then Some (2, [Some (q, q + 1)])
      else if q < length s \<and> s ! q = 0xA then Some (1, [None])
      else None)"

section \<open>The codec (src/vector-store.ts)\<close>

text \<open>
  An \<open>ArrayBuffer\<close> is the list of its bytes.
\<close>

type_synonym byte = "8 word"

text \<open>
  The object that \<open>toBinary\<close> writes as JSON in the metadata block, and that
  \<open>fromBinary\<close> reads back (the parsed value is used with this shape, unchecked).
\<close>

record 'm BinaryMeta =
  bm_version :: int
  bm_model :: jsstring
  bm_dimensions :: int
  chunkMeta :: "'m Chunk list"

text \<open>
  The functions of the platform that the codec calls, as parameters:
  \<^item> \<open>stringify\<close>, \<open>parse\<close>: \<open>JSON.stringify\<close> of a serialized index and \<open>JSON.parse\<close> with
    the result read as a serialized index (\<open>SyntaxError\<close> when the text is not JSON);
  \<^item> \<open>encode_meta\<close>: \<open>TextEncoder.encode(JSON.stringify(meta))\<close>; \<open>decode_meta\<close>:
    \<open>JSON.parse(TextDecoder.decode(bytes))\<close>;
  \<^item> \<open>f32_store\<close>: the four bytes that a \<open>Float32Array\<close> cell holds after a number is
    assigned to it; \<open>f32_load\<close>: the number read from the four bytes of a cell.
\<close>

record ('m, 'n) platform =
  stringify :: "('m, 'n) SerializedIndex \<Rightarrow> jsstring"
  parse :: "jsstring \<Rightarrow> error + ('m, 'n) SerializedIndex"
  encode_meta :: "'m BinaryMeta \<Rightarrow> byte list"
  decode_meta :: "byte list \<Rightarrow> error + 'm BinaryMeta"
  f32_store :: "'n \<Rightarrow> byte list"
  f32_load :: "byte list \<Rightarrow> 'n"

text \<open>
  Sequencing of calls that may raise.
\<close>

definition and_then :: "error + 'a \<Rightarrow> ('a \<Rightarrow> error + 'b) \<Rightarrow> error + 'b" where
  "and_then r f = (case r of Inl e \<Rightarrow> Inl e | Inr x \<Rightarrow> f x)"

text \<open>
  The header: big-endian unsigned 32-bit fields. \<open>setUint32\<close> takes the value modulo
  \<open>2^32\<close>; \<open>DataView\<close> raises \<open>RangeError\<close> outside the buffer.
\<close>

definition MAGIC :: nat where
  "MAGIC = 0x52414753"

definition u32_bytes :: "nat \<Rightarrow> byte list" where
  "u32_bytes n = [of_nat (n div 2 ^ 24), of_nat (n div 2 ^ 16), of_nat (n div 2 ^ 8), of_nat n]"

definition u32_value :: "byte list \<Rightarrow> nat" where
  "u32_value bs =
     unat (bs ! 0) * 2 ^ 24 + unat (bs ! 1) * 2 ^ 16 + unat (bs ! 2) * 2 ^ 8 + unat (bs ! 3)"

definition write_at :: "nat \<Rightarrow> byte list \<Rightarrow> byte list \<Rightarrow> byte list" where
  "write_at off bs buf = take off buf @ bs @ drop (off + length bs) buf"

definition setUint32 :: "nat \<Rightarrow> nat \<Rightarrow> byte list \<Rightarrow> error + byte list" where
  "setUint32 off v buf =
     (if off + 4 \<le> length buf then Inr (write_at off (u32_bytes v) buf) else Inl RangeError)"

definition getUint32 :: "byte list \<Rightarrow> nat \<Rightarrow> error + nat" where
  "getUint32 buf off =
     (if off + 4 \<le> length buf then Inr (u32_value (take 4 (drop off buf))) else Inl RangeError)"

definition uint8_set :: "byte list \<Rightarrow> nat \<Rightarrow> byte list \<Rightarrow> error + byte list" where
  "uint8_set bs off buf =
     (if off + length bs \<le> length buf then Inr (write_at off bs buf) else Inl RangeError)"

text \<open>
  \<open>new Float32Array(buffer, offset, n)\<close> raises \<open>RangeError\<close> unless \<open>n\<close> is not negative,
  the offset is a multiple of 4 and the \<open>n\<close> cells lie inside the buffer. An assignment to a
  cell at or past \<open>n\<close> is ignored. \<open>write_cells\<close> is the loop \<open>vectors[vi++] = val\<close> over the
  entries of all embeddings in order.
\<close>

definition float32_view_ok :: "byte list \<Rightarrow> nat \<Rightarrow> int \<Rightarrow> bool" where
  "float32_view_ok buf off n \<longleftrightarrow>
     0 \<le> n \<and> off mod 4 = 0 \<and> int off + 4 * n \<le> int (length buf)"

fun write_cells :: "('n \<Rightarrow> byte list) \<Rightarrow> nat \<Rightarrow> nat \<Rightarrow> nat \<Rightarrow> 'n list \<Rightarrow> byte list
    \<Rightarrow> byte list" where
  "write_cells st off n vi [] buf = buf"
| "write_cells st off n vi (val # vals) buf =
     write_cells st off n (vi + 1) vals
       (if vi < n then write_at (off + 4 * vi) (st val) buf else buf)"

definition read_cells :: "(byte list \<Rightarrow> 'n) \<Rightarrow> byte list \<Rightarrow> nat \<Rightarrow> nat \<Rightarrow> 'n list" where
  "read_cells ld buf off n = map (\<lambda>i. ld (take 4 (drop (off + 4 * i) buf))) [0 ..< n]"

definition serialize :: "('m, 'n) VectorStore \<Rightarrow> ('m, 'n) SerializedIndex" where
  "serialize s =
     \<lparr>si_version = INDEX_VERSION, si_model = model s, si_dimensions = dimensions s,
      si_chunks = chunks s\<rparr>"

definition toJSON :: "('m, 'n) platform \<Rightarrow> ('m, 'n) VectorStore \<Rightarrow> jsstring" where
  "toJSON P s = stringify P (serialize s)"

definition binary_meta :: "('m, 'n) SerializedIndex \<Rightarrow> 'm BinaryMeta" where
  "binary_meta serialized =
     \<lparr>bm_version = si_version serialized, bm_model = si_model serialized,
      bm_dimensions = si_dimensions serialized,
      chunkMeta = map (\<lambda>c. \<lparr>id_of = chunk_id c, content_of = content c,
                                metadata_of = metadata c\<rparr>) (si_chunks serialized)\<rparr>"

definition padding_for :: "nat \<Rightarrow> nat" where
  "padding_for unalignedOffset = (4 - unalignedOffset mod 4) mod 4"

definition toBinary :: "('m, 'n) platform \<Rightarrow> ('m, 'n) VectorStore \<Rightarrow> error + byte list" where
  "toBinary P s =
     (let serialized = serialize s;
          jsonBytes = encode_meta P (binary_meta serialized);
          headerSize = 16;
          unalignedOffset = headerSize + length jsonBytes;
          padding = padding_for unalignedOffset;
          vectorOffset = unalignedOffset + padding;
          vectorsSize = int (length (chunks s)) * dimensions s * 4;
          totalSize = int vectorOffset + vectorsSize
      in if totalSize < 0 then Inl RangeError
         else
           and_then (setUint32 0 MAGIC (replicate (nat totalSize) 0)) (\<lambda>b1.
           and_then (setUint32 4 (nat INDEX_VERSION) b1) (\<lambda>b2.
           and_then (setUint32 8 (length jsonBytes) b2) (\<lambda>b3.
           and_then (setUint32 12 (length (chunks s)) b3) (\<lambda>b4.
           and_then (uint8_set jsonBytes headerSize b4) (\<lambda>b5.
             if float32_view_ok b5 vectorOffset (int (length (chunks s)) * dimensions s)
             then Inr (write_cells (f32_store P) vectorOffset
                         (nat (int (length (chunks s)) * dimensions s)) 0
                         (concat (map embedding (chunks s))) b5)
             else Inl RangeError))))))"

definition fromSerialized :: "('m, 'n) SerializedIndex \<Rightarrow> error + ('m, 'n) VectorStore" where
  "fromSerialized d =
     (if si_version d \<noteq> INDEX_VERSION then Inl UnsupportedVersion
      else (case addAll (new_store (Some (si_model d)) (Some (si_dimensions d))) (si_chunks d) of
        (Inl e, _) \<Rightarrow> Inl e
      | (Inr _, store) \<Rightarrow> Inr store))"

definition fromJSON :: "('m, 'n) platform \<Rightarrow> jsstring \<Rightarrow> error + ('m, 'n) VectorStore" where
  "fromJSON P json = and_then (parse P json) fromSerialized"

text \<open>
  The loop of \<open>fromBinary\<close> that rebuilds the records for \<open>i = 0, ..., chunkCount - 1\<close>
  (\<open>k\<close> counts the iterations left): a missing \<open>chunkMeta[i]\<close> raises \<open>TypeError\<close>, and
  \<open>vectors.slice\<close> is clamped to the cells of the view.
\<close>

fun rebuild_chunks :: "'n list \<Rightarrow> int \<Rightarrow> 'm Chunk list \<Rightarrow> nat \<Rightarrow> nat
    \<Rightarrow> error + ('m, 'n) EmbeddedChunk list" where
  "rebuild_chunks vectors dims metas i 0 = Inr []"
| "rebuild_chunks vectors dims metas i (Suc k) =
     (if length metas \<le> i then Inl TypeError
      else and_then (rebuild_chunks vectors dims metas (i + 1) k) (\<lambda>rest.
        Inr (\<lparr>chunk_id = id_of (metas ! i), content = content_of (metas ! i),
               metadata = metadata_of (metas ! i),
               embedding = take (nat ((int i + 1) * dims) - nat (int i * dims))
                             (drop (nat (int i * dims)) vectors)\<rparr> # rest)))"

definition fromBinary :: "('m, 'n) platform \<Rightarrow> byte list \<Rightarrow> error + ('m, 'n) VectorStore" where
  "fromBinary P buffer =
     and_then (getUint32 buffer 0) (\<lambda>magic.
       if magic \<noteq> MAGIC then Inl InvalidFormat
       else and_then (getUint32 buffer 4) (\<lambda>version.
         if int version \<noteq> INDEX_VERSION then Inl UnsupportedVersion
         else and_then (getUint32 buffer 8) (\<lambda>jsonLength.
              and_then (getUint32 buffer 12) (\<lambda>chunkCount.
           (let headerSize = 16
            in and_then (decode_meta P (take jsonLength (drop headerSize buffer))) (\<lambda>meta.
              (let unalignedOffset = headerSize + jsonLength;
                   padding = padding_for unalignedOffset;
                   vectorOffset = unalignedOffset + padding;
                   n = int chunkCount * bm_dimensions meta
               in if \<not> float32_view_ok buffer vectorOffset n then Inl RangeError
                  else and_then
                    (rebuild_chunks (read_cells (f32_load P) buffer vectorOffset (nat n))
                       (bm_dimensions meta) (chunkMeta meta) 0 chunkCount) (\<lambda>cs.
                    (case addAll (new_store (Some (bm_model meta)) (Some (bm_dimensions meta))) cs of
                       (Inl e, _) \<Rightarrow> Inl e
                     | (Inr _, store) \<Rightarrow> Inr store)))))))))"

text \<open>
  The layout that \<open>toBinary\<close> produces: header, metadata block, zero padding, cells.
\<close>

definition binary_image :: "('m, 'n) platform \<Rightarrow> ('m, 'n) VectorStore \<Rightarrow> byte list" where
  "binary_image P s =
     (let jsonBytes = encode_meta P (binary_meta (serialize s))
      in u32_bytes MAGIC @ u32_bytes 1 @ u32_bytes (length jsonBytes)
           @ u32_bytes (length (chunks s)) @ jsonBytes
           @ replicate (padding_for (16 + length jsonBytes)) 0
           @ concat (map (f32_store P) (concat (map embedding (chunks s)))))"

definition to_meta :: "('m, 'n) EmbeddedChunk \<Rightarrow> 'm Chunk" where
  "to_meta c = \<lparr>id_of = chunk_id c, content_of = content c, metadata_of = metadata c\<rparr>"

text \<open>The store with every embedding entry replaced by its image under \<open>g\<close>.\<close>

definition map_embeddings :: "('n \<Rightarrow> 'n) \<Rightarrow> ('m, 'n) VectorStore \<Rightarrow> ('m, 'n) VectorStore" where
  "map_embeddings g s =
     s\<lparr>chunks := map (\<lambda>c. c\<lparr>embedding := map g (embedding c)\<rparr>) (chunks s)\<rparr>"

text \<open>
  \<open>Math.fround\<close>, the value that a \<open>Float32Array\<close> cell returns for a stored number:
  the nearest number with a 24-bit significand and an exponent of at least -126, ties to
  the even significand, and an infinity from \<open>2^128\<close> on.
\<close>

definition pow2 :: "int \<Rightarrow> real" where
  "pow2 k = (if 0 \<le> k then 2 ^ nat k else 1 / 2 ^ nat (- k))"

definition round_half_even :: "real \<Rightarrow> int" where
  "round_half_even x =
     (let f = \<lfloor>x\<rfloor>; d = x - of_int f
      in if d < 1 / 2 then f else if 1 / 2 < d then f + 1 else if even f then f else f + 1)"

definition f32_exponent :: "real \<Rightarrow> int" where
  "f32_exponent x = max \<lfloor>log 2 \<bar>x\<bar>\<rfloor> (- 126)"

definition fround_real :: "real \<Rightarrow> real" where
  "fround_real x =
     (if x = 0 then 0
      else of_int (round_half_even (x / pow2 (f32_exponent x - 23)))
             * pow2 (f32_exponent x - 23))"

definition fround :: "number \<Rightarrow> number" where
  "fround v =
     (case v of
        Fin x \<Rightarrow>
          (let y = fround_real x
           in if 2 ^ 128 \<le> \<bar>y\<bar> then (if 0 < y then PInf else NInf) else Fin y)
      | _ \<Rightarrow> v)"

text \<open>
  What the codec needs of the platform on a given store: the JSON text of the index and
  of the metadata block parse back to the same values, the sizes fit the 32-bit header
  fields, and a cell is four bytes that read back as the number narrowed to 32 bits.
\<close>

definition platform_ok :: "('m, number) platform \<Rightarrow> ('m, number) VectorStore \<Rightarrow> bool" where
  "platform_ok P s \<longleftrightarrow>
     parse P (stringify P (serialize s)) = Inr (serialize s)
     \<and> decode_meta P (encode_meta P (binary_meta (serialize s))) = Inr (binary_meta (serialize s))
     \<and> length (encode_meta P (binary_meta (serialize s))) < 2 ^ 32
     \<and> length (chunks s) < 2 ^ 32
     \<and> (\<forall>c \<in> set (chunks s). \<forall>v \<in> set (embedding c).
           length (f32_store P v) = 4 \<and> f32_load P (f32_store P v) = fround v)"

text \<open>
  Every embedding entry is a 32-bit float already.
\<close>

definition float32_entries :: "('m, number) VectorStore \<Rightarrow> bool" where
  "float32_entries s \<longleftrightarrow> (\<forall>c \<in> set (chunks s). \<forall>v \<in> set (embedding c). fround v = v)"

text \<open>
  Two stores with the platform's results on them: one whose embedding holds 0.1, which is
  not a 32-bit float (its cell reads back as 13421773 / 2^27), and one with the entries 1
  and 0. The bytes are the JSON text and the little-endian IEEE-754 cells.
\<close>

definition tenth_store :: "(unit, number) VectorStore" where
  "tenth_store =
     \<lparr>chunks = [\<lparr>chunk_id = ascii ''c1'', content = ascii ''x'', metadata = None,
                  embedding = [Fin (1 / 10)]\<rparr>],
      model = ascii ''m'', dimensions = 1\<rparr>"

definition tenth_json :: jsstring where
  "tenth_json = ascii (''{\"version\":1,\"model\":\"m\",\"dimensions\":1,\"chunks\":''
     @ ''[{\"id\":\"c1\",\"content\":\"x\",\"embedding\":[0.1]}]}'')"

definition tenth_meta_bytes :: "byte list" where
  "tenth_meta_bytes = map of_char (''{\"version\":1,\"model\":\"m\",\"dimensions\":1,\"chunkMeta\":''
     @ ''[{\"id\":\"c1\",\"content\":\"x\"}]}'')"

definition tenth_platform :: "(unit, number) platform" where
  "tenth_platform =
     \<lparr>stringify = (\<lambda>d. if d = serialize tenth_store then tenth_json else []),
      parse = (\<lambda>t. if t = tenth_json then Inr (serialize tenth_store) else Inl SyntaxError),
      encode_meta = (\<lambda>m. if m = binary_meta (serialize tenth_store) then tenth_meta_bytes else []),
      decode_meta = (\<lambda>b. if b = tenth_meta_bytes then Inr (binary_meta (serialize tenth_store))
                          else Inl SyntaxError),
      f32_store = (\<lambda>v. if v = Fin (1 / 10) then [0xCD, 0xCC, 0xCC, 0x3D] else [0, 0, 0, 0]),
      f32_load = (\<lambda>b. if b = [0xCD, 0xCC, 0xCC, 0x3D] then Fin (13421773 / 134217728)
                       else Fin 0)\<rparr>"

definition unit_store :: "(unit, number) VectorStore" where
  "unit_store =
     \<lparr>chunks = [\<lparr>chunk_id = ascii ''c1'', content = ascii ''x'', metadata = None,
                  embedding = [Fin 1, Fin 0]\<rparr>],
      model = ascii ''m'', dimensions = 2\<rparr>"

definition unit_json :: jsstring where
  "unit_json = ascii (''{\"version\":1,\"model\":\"m\",\"dimensions\":2,\"chunks\":''
     @ ''[{\"id\":\"c1\",\"content\":\"x\",\"embedding\":[1,0]}]}'')"

definition unit_meta_bytes :: "byte list" where
  "unit_meta_bytes = map of_char (''{\"version\":1,\"model\":\"m\",\"dimensions\":2,\"chunkMeta\":''
     @ ''[{\"id\":\"c1\",\"content\":\"x\"}]}'')"

definition unit_platform :: "(unit, number) platform" where
  "unit_platform =
     \<lparr>stringify = (\<lambda>d. if d = serialize unit_store then unit_json else []),
      parse = (\<lambda>t. if t = unit_json then Inr (serialize unit_store) else Inl SyntaxError),
      encode_meta = (\<lambda>m. if m = binary_meta (serialize unit_store) then unit_meta_bytes else []),
      decode_meta = (\<lambda>b. if b = unit_meta_bytes then Inr (binary_meta (serialize unit_store))
                          else Inl SyntaxError),
      f32_store = (\<lambda>v. if v = Fin 1 then [0, 0, 0x80, 0x3F] else [0, 0, 0, 0]),
      f32_load = (\<lambda>b. if b = [0, 0, 0x80, 0x3F] then Fin 1 else Fin 0)\<rparr>"

section \<open>Properties of the vector store\<close>

lemma findIndex_Some:
  "findIndex p xs = Some k \<Longrightarrow> k < length xs \<and> p (xs ! k)"
  by (induction xs arbitrary: k) (auto split: if_splits)

lemma distinct_take_drop:
  "distinct ys \<Longrightarrow> distinct (take k ys @ drop (Suc k) ys)"
proof -
  assume d: "distinct ys"
  have "set (take k ys) \<inter> set (drop k ys) = {}"
    using d by (metis append_take_drop_id distinct_append)
  moreover have "set (drop (Suc k) ys) \<subseteq> set (drop k ys)"
    by (metis Suc_eq_plus1 add.commute drop_drop set_drop_subset)
  ultimately show ?thesis using d by auto
qed

lemma distinct_splice1:
  "distinct (map f xs) \<Longrightarrow> distinct (map f (splice1 k xs))"
  using distinct_take_drop [of "map f xs" k]
  by (simp add: splice1_def take_map drop_map)

lemma unique_ids_add:
  "unique_ids s \<Longrightarrow> \<not> has s (chunk_id c) \<Longrightarrow> unique_ids (snd (add s c))"
  by (auto simp: unique_ids_def has_def add_def validateDimensions_def list_ex_iff)

lemma unique_ids_remove: "unique_ids s \<Longrightarrow> unique_ids (snd (remove s i))"
  by (auto simp: unique_ids_def remove_def distinct_splice1 split: option.splits)

lemma unique_ids_clear: "unique_ids (clear s)"
  by (simp add: unique_ids_def clear_def)

lemma add_Inr_snd: "add s c = (Inr u, s') \<Longrightarrow> s' = snd (add s c)"
  by simp

text \<open>
  C4 (as amended). The store never compares the id of a record it inserts with the ids it
  holds, so uniqueness is kept only when the caller inserts fresh ids: from a store with
  unique ids (the empty store is one), every run of insert, remove and clear operations
  that succeeds and whose inserts carry ids not present at that moment ends in a store
  with unique ids. Remove and clear keep uniqueness unconditionally.
\<close>

theorem unique_ids_invariant:
  "unique_ids s \<Longrightarrow> fresh_inserts s ops \<Longrightarrow> run_ops s ops = Some s'
     \<Longrightarrow> unique_ids s'"
proof (induction s ops rule: run_ops.induct)
  case (1 s)
  then show ?case by simp
next
  case (2 s c ops)
  obtain r s1 where a: "add s c = (r, s1)" by (cases "add s c")
  with "2.prems" obtain u where r: "r = Inr u" by (cases r) auto
  have "unique_ids s1"
    using unique_ids_add [of s c] "2.prems" a by simp
  moreover have "fresh_inserts s1 ops" using "2.prems" a by simp
  moreover have "run_ops s1 ops = Some s'" using "2.prems" a r by simp
  ultimately show ?case using "2.IH" a r by simp
next
  case (3 s i ops)
  then show ?case using unique_ids_remove [of s i] by simp
next
  case (4 s ops)
  then show ?case using unique_ids_clear [of s] by simp
qed

theorem unique_ids_invariant_witness:
  "unique_ids (new_store None (Some 1) :: (unit, real) VectorStore)
   \<and> fresh_inserts (new_store None (Some 1) :: (unit, real) VectorStore)
        [Insert \<lparr>chunk_id = ascii ''a'', content = [], metadata = None, embedding = [1]\<rparr>,
         Insert \<lparr>chunk_id = ascii ''b'', content = [], metadata = None, embedding = [0]\<rparr>,
         Remove (ascii ''a''), Clear]
   \<and> unique_ids (new_store None (Some 1)\<lparr>chunks := []\<rparr> :: (unit, real) VectorStore)"
proof -
  let ?s = "new_store None (Some 1) :: (unit, real) VectorStore"
  let ?ops = "[Insert \<lparr>chunk_id = ascii ''a'', content = [], metadata = None, embedding = [1]\<rparr>,
         Insert \<lparr>chunk_id = ascii ''b'', content = [], metadata = None, embedding = [0]\<rparr>,
         Remove (ascii ''a''), Clear] :: (unit, real) operation list"
  have u: "unique_ids ?s" by (simp add: unique_ids_def new_store_def)
  have f: "fresh_inserts ?s ?ops"
    by (simp add: new_store_def add_def validateDimensions_def has_def remove_def
        splice1_def clear_def ascii_def)
  have r: "run_ops ?s ?ops = Some (?s\<lparr>chunks := []\<rparr>)"
    by (simp add: new_store_def add_def validateDimensions_def has_def remove_def
        splice1_def clear_def ascii_def)
  have "unique_ids (?s\<lparr>chunks := []\<rparr>)" by (rule unique_ids_invariant [OF u f r])
  with f have "fresh_inserts ?s ?ops \<and> unique_ids (?s\<lparr>chunks := []\<rparr>)" by (rule conjI)
  with u show ?thesis by (rule conjI)
qed

text \<open>
  C4 (as stated) fails: inserting the same record twice into the empty store succeeds
  both times and leaves two records with one id.
\<close>

theorem insert_duplicate_id_counterexample:
  "run_ops (new_store None (Some 1) :: (unit, real) VectorStore)
     [Insert \<lparr>chunk_id = ascii ''a'', content = [], metadata = None, embedding = [1]\<rparr>,
      Insert \<lparr>chunk_id = ascii ''a'', content = [], metadata = None, embedding = [1]\<rparr>]
   = Some \<lparr>chunks =
       [\<lparr>chunk_id = ascii ''a'', content = [], metadata = None, embedding = [1]\<rparr>,
        \<lparr>chunk_id = ascii ''a'', content = [], metadata = None, embedding = [1]\<rparr>],
      model = ascii ''unknown'', dimensions = 1\<rparr>
   \<and> \<not> unique_ids \<lparr>chunks =
       [\<lparr>chunk_id = ascii ''a'', content = [], metadata = None, embedding = [1::real]\<rparr>,
        \<lparr>chunk_id = ascii ''a'', content = [], metadata = (None :: unit option), embedding = [1]\<rparr>],
      model = ascii ''unknown'', dimensions = 1\<rparr>"
  by (simp add: new_store_def add_def validateDimensions_def unique_ids_def)

text \<open>
  C6. Insert validates before it mutates: when the length of the record's embedding differs
  from the declared dimensions it raises \<open>DimensionMismatch\<close> and the store is unchanged;
  otherwise it succeeds, the new record is appended, and the records stored before are the
  same, in the same positions.
\<close>

theorem add_validates_before_mutating:
  "(int (length (embedding c)) \<noteq> dimensions s \<longrightarrow> add s c = (Inl DimensionMismatch, s))
   \<and> (int (length (embedding c)) = dimensions s \<longrightarrow>
        fst (add s c) = Inr ()
        \<and> chunks (snd (add s c)) = chunks s @ [c]
        \<and> take (length (chunks s)) (chunks (snd (add s c))) = chunks s
        \<and> model (snd (add s c)) = model s
        \<and> dimensions (snd (add s c)) = dimensions s)"
  by (simp add: add_def validateDimensions_def)

theorem add_validates_before_mutating_witness:
  "add \<lparr>chunks = [], model = ascii ''m'', dimensions = 2\<rparr>
       \<lparr>chunk_id = ascii ''a'', content = [], metadata = (None :: unit option), embedding = [1::real]\<rparr>
     = (Inl DimensionMismatch, \<lparr>chunks = [], model = ascii ''m'', dimensions = 2\<rparr>)
   \<and> chunks (snd (add \<lparr>chunks = [], model = ascii ''m'', dimensions = 2\<rparr>
       \<lparr>chunk_id = ascii ''a'', content = [], metadata = (None :: unit option), embedding = [1::real, 0]\<rparr>))
     = [\<lparr>chunk_id = ascii ''a'', content = [], metadata = None, embedding = [1, 0]\<rparr>]"
  using add_validates_before_mutating
          [of "\<lparr>chunk_id = ascii ''a'', content = [], metadata = (None :: unit option), embedding = [1::real]\<rparr>"
              "\<lparr>chunks = [], model = ascii ''m'', dimensions = 2\<rparr>"]
        add_validates_before_mutating
          [of "\<lparr>chunk_id = ascii ''a'', content = [], metadata = (None :: unit option), embedding = [1::real, 0]\<rparr>"
              "\<lparr>chunks = [], model = ascii ''m'', dimensions = 2\<rparr>"]
  by simp

text \<open>
  C10. \<open>clear\<close> empties the record sequence and leaves the model name and the dimensions
  as they were; \<open>remove\<close>, whatever it returns, leaves the model name and the dimensions as
  they were (when it returns false the whole store is unchanged).
\<close>

theorem clear_remove_frame:
  "chunks (clear s) = [] \<and> model (clear s) = model s \<and> dimensions (clear s) = dimensions s
   \<and> model (snd (remove s i)) = model s \<and> dimensions (snd (remove s i)) = dimensions s
   \<and> (fst (remove s i) = False \<longrightarrow> snd (remove s i) = s)"
  by (simp add: clear_def remove_def split: option.splits)

theorem clear_remove_frame_witness:
  "fst (remove (\<lparr>chunks = [], model = ascii ''m'', dimensions = 2\<rparr> :: (unit, real) VectorStore)
       (ascii ''a'')) = False
   \<and> snd (remove (\<lparr>chunks = [], model = ascii ''m'', dimensions = 2\<rparr> :: (unit, real) VectorStore)
       (ascii ''a'')) = \<lparr>chunks = [], model = ascii ''m'', dimensions = 2\<rparr>"
proof -
  let ?s = "\<lparr>chunks = [], model = ascii ''m'', dimensions = 2\<rparr> :: (unit, real) VectorStore"
  have h: "fst (remove ?s (ascii ''a'')) = False"
    by (simp add: remove_def)
  have "fst (remove ?s (ascii ''a'')) = False \<longrightarrow> snd (remove ?s (ascii ''a'')) = ?s"
    using clear_remove_frame [of ?s "ascii ''a''"] by (elim conjE)
  with h have "snd (remove ?s (ascii ''a'')) = ?s" by (rule rev_mp)
  with h show ?thesis by (rule conjI)
qed

lemma score_key_inj: "score_key a = score_key b \<Longrightarrow> a = b"
  by (cases a; cases b) (simp_all add: score_key_def)

lemma num_ge_key: "a \<noteq> NaN \<Longrightarrow> b \<noteq> NaN \<Longrightarrow> num_ge a b \<longleftrightarrow> score_key a \<le> score_key b"
  by (cases a; cases b) (simp_all add: score_key_def)

lemma cmp_key:
  "a \<noteq> NaN \<Longrightarrow> b \<noteq> NaN \<Longrightarrow>
     num_gt (num_sub b a) (Fin 0) \<longleftrightarrow> \<not> score_key a \<le> score_key b"
  by (cases a; cases b) (auto simp: score_key_def num_sub_def)

lemma num_ge_not_NaN: "num_ge a b \<Longrightarrow> a \<noteq> NaN"
  by (cases a) auto

lemma insort_cmp_key:
  "score x \<noteq> NaN \<Longrightarrow> \<forall>y \<in> set ys. score y \<noteq> NaN \<Longrightarrow>
     insort_cmp by_score_desc x ys = insort_key (\<lambda>r. score_key (score r)) x ys"
  by (induction ys) (simp_all add: by_score_desc_def cmp_key)

lemma js_sort_key:
  "\<forall>y \<in> set xs. score y \<noteq> NaN \<Longrightarrow>
     js_sort by_score_desc xs = sort_key (\<lambda>r. score_key (score r)) xs"
proof (induction xs)
  case Nil
  then show ?case by (simp add: js_sort_def)
next
  case (Cons x xs)
  then have "js_sort by_score_desc xs = sort_key (\<lambda>r. score_key (score r)) xs" by simp
  moreover have "\<forall>y \<in> set (sort_key (\<lambda>r. score_key (score r)) xs). score y \<noteq> NaN"
    using Cons.prems by simp
  ultimately show ?case
    using Cons.prems insort_cmp_key [of x "sort_key (\<lambda>r. score_key (score r)) xs"]
    by (simp add: js_sort_def)
qed

lemma cosine_value_eq:
  "length a = length b \<Longrightarrow> cosineSimilarity a b = Inr (cosine_value a b)"
  by (simp add: cosine_value_def cosineSimilarity_def Let_def split: prod.splits)

lemma search_loop_ranked:
  "\<forall>c \<in> set cs. length (embedding c) = length q \<Longrightarrow>
     search_loop f th q acc cs =
       Inr (acc @ map (\<lambda>c. to_result c (cosine_value q (embedding c)))
         (filter (\<lambda>c. \<not> rejected f (metadata c) \<and> num_ge (cosine_value q (embedding c)) th) cs))"
proof (induction cs arbitrary: acc)
  case Nil
  then show ?case by simp
next
  case (Cons c cs)
  then have len: "length q = length (embedding c)" by simp
  show ?case using Cons by (simp add: cosine_value_eq [OF len])
qed

lemma search_ranked:
  assumes "store_ok s" and "int (length q) = dimensions s"
  shows "search s q opts = Inr (slice0 (js_sort by_score_desc (ranked s q opts)) (topK_of opts))"
proof -
  have "\<forall>c \<in> set (chunks s). length (embedding c) = length q"
    using assms by (auto simp: store_ok_def)
  then show ?thesis
    using assms(2) search_loop_ranked [of "chunks s" q "filter_opt opts" "threshold_of opts" "[]"]
    by (simp add: search_def validateDimensions_def ranked_def)
qed

lemma ranked_props:
  "r \<in> set (ranked s q opts) \<Longrightarrow>
     num_ge (score r) (threshold_of opts) \<and> \<not> rejected (filter_opt opts) (metadata_of (chunk r))"
  by (auto simp: ranked_def to_result_def)

lemma set_slice0: "set (slice0 xs k) \<subseteq> set xs"
  by (auto simp: slice0_def dest: in_set_takeD)

lemma length_slice0: "0 \<le> k \<Longrightarrow> int (length (slice0 xs k)) \<le> k"
  by (simp add: slice0_def)

lemma slice0_take: "\<exists>n. slice0 xs k = take n xs"
  by (auto simp: slice0_def)

lemma filter_take_prefix: "prefix (filter P (take n xs)) (filter P xs)"
  by (metis append_take_drop_id filter_append prefixI)

text \<open>
  C3 (as amended). For every store that satisfies the class invariant, every query vector
  of the store's dimensionality and every options value, \<open>search\<close> returns a sequence
  that is sorted by descending score, whose scores all reach the threshold (default 0),
  whose records are all accepted by the metadata filter, and in which records of equal
  score keep their insertion order (they are a prefix of the equally scored ranked records
  in store order). The number of results is at most \<open>topK\<close> (default 5) when \<open>topK\<close>
  is not negative.
\<close>

theorem search_sorted_bounded:
  assumes "store_ok s" and "int (length q) = dimensions s"
  shows "\<exists>rs. search s q opts = Inr rs
     \<and> sorted_wrt (\<lambda>a b. num_ge (score a) (score b)) rs
     \<and> (\<forall>r \<in> set rs. num_ge (score r) (threshold_of opts))
     \<and> (0 \<le> topK_of opts \<longrightarrow> int (length rs) \<le> topK_of opts)
     \<and> (\<forall>r \<in> set rs. \<not> rejected (filter_opt opts) (metadata_of (chunk r)))
     \<and> (\<forall>v. prefix (filter (\<lambda>r. score r = v) rs)
               (filter (\<lambda>r. score r = v) (ranked s q opts)))"
proof -
  let ?key = "\<lambda>r :: 'a SearchResult. score_key (score r)"
  let ?xs = "ranked s q opts"
  let ?sorted = "sort_key ?key ?xs"
  let ?rs = "slice0 ?sorted (topK_of opts)"
  have nn: "\<forall>y \<in> set ?xs. score y \<noteq> NaN"
    using ranked_props [of _ s q opts] num_ge_not_NaN by blast
  have eq: "search s q opts = Inr ?rs"
    using search_ranked [OF assms] js_sort_key [OF nn] by simp
  obtain n where n: "?rs = take n ?sorted" using slice0_take by blast
  have sub: "set ?rs \<subseteq> set ?xs" using set_slice0 [of ?sorted] by simp
  have "sorted (map ?key ?sorted)" by (rule sorted_sort_key)
  then have "sorted_wrt (\<lambda>a b. ?key a \<le> ?key b) ?sorted" by (simp add: sorted_map)
  then have "sorted_wrt (\<lambda>a b. ?key a \<le> ?key b) ?rs"
    unfolding n by (rule sorted_wrt_take)
  then have s1: "sorted_wrt (\<lambda>a b. num_ge (score a) (score b)) ?rs"
  proof (rule sorted_wrt_mono_rel [rotated])
    fix a b assume "a \<in> set ?rs" "b \<in> set ?rs" "?key a \<le> ?key b"
    then show "num_ge (score a) (score b)"
      using nn sub num_ge_key [of "score a" "score b"] by blast
  qed
  have s2: "\<forall>r \<in> set ?rs. num_ge (score r) (threshold_of opts)"
    using sub ranked_props [of _ s q opts] by blast
  have s3: "0 \<le> topK_of opts \<longrightarrow> int (length ?rs) \<le> topK_of opts"
    using length_slice0 by blast
  have s4: "\<forall>r \<in> set ?rs. \<not> rejected (filter_opt opts) (metadata_of (chunk r))"
    using sub ranked_props [of _ s q opts] by blast
  have s5: "prefix (filter (\<lambda>r. score r = v) ?rs) (filter (\<lambda>r. score r = v) ?xs)" for v
  proof -
    have "(\<lambda>r :: 'a SearchResult. score r = v) = (\<lambda>r. ?key r = score_key v)"
      using score_key_inj by (intro ext) auto
    then have "filter (\<lambda>r. score r = v) ?sorted = filter (\<lambda>r. score r = v) ?xs"
      using sort_key_stable [of ?key "score_key v" ?xs] by simp
    then show ?thesis
      unfolding n using filter_take_prefix [of "\<lambda>r. score r = v" n ?sorted] by simp
  qed
  show ?thesis using eq s1 s2 s3 s4 s5 by blast
qed

theorem search_sorted_bounded_witness:
  "store_ok \<lparr>chunks =
       [\<lparr>chunk_id = ascii ''c1'', content = [], metadata = (None :: unit option), embedding = [Fin 1, Fin 0, Fin 0]\<rparr>,
        \<lparr>chunk_id = ascii ''c2'', content = [], metadata = None, embedding = [Fin 0, Fin 1, Fin 0]\<rparr>,
        \<lparr>chunk_id = ascii ''c3'', content = [], metadata = None, embedding = [Fin 0, Fin 0, Fin 1]\<rparr>],
      model = ascii ''m'', dimensions = 3\<rparr>
   \<and> search \<lparr>chunks =
       [\<lparr>chunk_id = ascii ''c1'', content = [], metadata = (None :: unit option), embedding = [Fin 1, Fin 0, Fin 0]\<rparr>,
        \<lparr>chunk_id = ascii ''c2'', content = [], metadata = None, embedding = [Fin 0, Fin 1, Fin 0]\<rparr>,
        \<lparr>chunk_id = ascii ''c3'', content = [], metadata = None, embedding = [Fin 0, Fin 0, Fin 1]\<rparr>],
      model = ascii ''m'', dimensions = 3\<rparr>
      [Fin 1, Fin 0, Fin 0] \<lparr>topK = Some 1, threshold = None, filter_opt = None\<rparr>
     = Inr [\<lparr>chunk = \<lparr>id_of = ascii ''c1'', content_of = [], metadata_of = None\<rparr>, score = Fin 1\<rparr>]"
proof -
  let ?s = "\<lparr>chunks =
       [\<lparr>chunk_id = ascii ''c1'', content = [], metadata = (None :: unit option), embedding = [Fin 1, Fin 0, Fin 0]\<rparr>,
        \<lparr>chunk_id = ascii ''c2'', content = [], metadata = None, embedding = [Fin 0, Fin 1, Fin 0]\<rparr>,
        \<lparr>chunk_id = ascii ''c3'', content = [], metadata = None, embedding = [Fin 0, Fin 0, Fin 1]\<rparr>],
      model = ascii ''m'', dimensions = 3\<rparr>"
  let ?o = "\<lparr>topK = Some 1, threshold = None, filter_opt = None\<rparr> :: unit SearchOptions"
  have ok: "store_ok ?s" by (simp add: store_ok_def)
  have len: "int (length [Fin 1, Fin 0, Fin 0]) = dimensions ?s" by simp
  have ev: "search ?s [Fin 1, Fin 0, Fin 0] ?o
     = Inr [\<lparr>chunk = \<lparr>id_of = ascii ''c1'', content_of = [], metadata_of = None\<rparr>, score = Fin 1\<rparr>]"
    by (simp add: search_def validateDimensions_def rejected_def cosineSimilarity_def
        to_result_def threshold_of_def topK_of_def slice0_def js_sort_def by_score_desc_def
        num_sub_def)
  obtain rs where "search ?s [Fin 1, Fin 0, Fin 0] ?o = Inr rs"
    using search_sorted_bounded [OF ok len, of ?o] by blast
  with ev ok show ?thesis by simp
qed

text \<open>
  C3 (as stated) fails for a negative \<open>topK\<close>: \<open>slice(0, -1)\<close> drops the last result only,
  so two matching records with \<open>topK = -1\<close> give one result, which is more than \<open>topK\<close>.
\<close>

theorem search_negative_topK_counterexample:
  "search \<lparr>chunks =
       [\<lparr>chunk_id = ascii ''c1'', content = [], metadata = (None :: unit option), embedding = [Fin 1]\<rparr>,
        \<lparr>chunk_id = ascii ''c2'', content = [], metadata = None, embedding = [Fin 1]\<rparr>],
      model = ascii ''m'', dimensions = 1\<rparr>
      [Fin 1] \<lparr>topK = Some (- 1), threshold = None, filter_opt = None\<rparr>
     = Inr [\<lparr>chunk = \<lparr>id_of = ascii ''c1'', content_of = [], metadata_of = None\<rparr>, score = Fin 1\<rparr>]
   \<and> \<not> int (length [\<lparr>chunk = \<lparr>id_of = ascii ''c1'', content_of = [], metadata_of = (None :: unit option)\<rparr>,
                          score = Fin 1\<rparr>]) \<le> - 1"
  by (simp add: search_def validateDimensions_def rejected_def cosineSimilarity_def
        to_result_def threshold_of_def topK_of_def slice0_def js_sort_def by_score_desc_def
        num_sub_def)

lemma cosineSimilarity_mismatch:
  "length a \<noteq> length b \<Longrightarrow> cosineSimilarity a b = Inl DimensionMismatch"
  by (simp add: cosineSimilarity_def)

text \<open>
  C5 does not hold of the code. The guard \<open>magnitude === 0\<close> is there to return 0 for a
  vector of zero magnitude, but it misses the magnitude that is NaN: for the zero vector
  against a vector that holds \<open>Infinity\<close> the lengths agree, \<open>normA\<close> is 0 and \<open>normB\<close> is
  \<open>Infinity\<close>, the magnitude is \<open>0 * Infinity = NaN\<close>, which is not \<open>=== 0\<close>, and the
  result is \<open>NaN / NaN = NaN\<close>. Every operation on this input has an exact result.
\<close>

theorem cosineSimilarity_zero_vector_NaN:
  "length [Fin 0] = length [PInf] \<and> cosineSimilarity [Fin 0] [PInf] = Inr NaN"
  by (simp add: cosineSimilarity_def inf_times_def)

lemma store_ok_add: "store_ok s \<Longrightarrow> store_ok (snd (add s c))"
  by (auto simp: store_ok_def add_def validateDimensions_def)

lemma store_ok_remove: "store_ok s \<Longrightarrow> store_ok (snd (remove s i))"
  by (auto simp: store_ok_def remove_def splice1_def split: option.splits
      dest: in_set_takeD in_set_dropD)

lemma store_ok_clear: "store_ok (clear s)"
  by (simp add: store_ok_def clear_def)

lemma store_ok_new: "store_ok (new_store m d)"
  by (simp add: store_ok_def new_store_def)

lemma run_ops_store_ok: "store_ok s \<Longrightarrow> run_ops s ops = Some s' \<Longrightarrow> store_ok s'"
proof (induction s ops rule: run_ops.induct)
  case (1 s)
  then show ?case by simp
next
  case (2 s c ops)
  obtain r s1 where a: "add s c = (r, s1)" by (cases "add s c")
  with "2.prems" obtain u where r: "r = Inr u" by (cases r) auto
  have "store_ok s1" using store_ok_add [of s c] "2.prems" a by simp
  moreover have "run_ops s1 ops = Some s'" using "2.prems" a r by simp
  ultimately show ?case using "2.IH" a r by simp
next
  case (3 s i ops)
  then show ?case using store_ok_remove [of s i] by simp
next
  case (4 s ops)
  then show ?case using store_ok_clear [of s] by simp
qed

section \<open>Properties of the chunker\<close>

lemma filter_trim_eq:
  "filter_trim xs =
     (if None \<in> set xs then Inl TypeError else Inr (filter nonblank (map the xs)))"
  by (induction xs rule: filter_trim.induct) auto

lemma chunkText_errors:
  "chunkText text opts = Some (Inl e) \<Longrightarrow>
     (e = InvalidArgument \<and> (chunkSize_of opts \<le> 0 \<or> chunkOverlap_of opts < 0
        \<or> chunkSize_of opts \<le> chunkOverlap_of opts))
     \<or> (e = TypeError \<and> \<not> (chunkSize_of opts \<le> 0 \<or> chunkOverlap_of opts < 0
        \<or> chunkSize_of opts \<le> chunkOverlap_of opts) \<and> undefined_capture opts text)"
proof (cases "chunkSize_of opts \<le> 0 \<or> chunkOverlap_of opts < 0
    \<or> chunkSize_of opts \<le> chunkOverlap_of opts")
  case True
  assume "chunkText text opts = Some (Inl e)"
  with True show ?thesis by (auto simp: chunkText_def Let_def split: if_splits)
next
  case False
  assume r: "chunkText text opts = Some (Inl e)"
  show ?thesis
  proof (cases "truthy_separator opts")
    case None
    with r False show ?thesis
      by (auto simp: chunkText_def Let_def split: if_splits)
  next
    case (Some sep)
    show ?thesis
    proof (cases sep)
      case (Literal x)
      with r False Some show ?thesis
        by (auto simp: chunkText_def Let_def split: if_splits)
    next
      case (Pattern m)
      with r False Some show ?thesis
        by (auto simp: chunkText_def Let_def filter_trim_eq undefined_capture_def
            split: if_splits)
    qed
  qed
qed

text \<open>
  C9. For every text and every separator, \<open>chunkText\<close> raises \<open>InvalidArgument\<close> when
  \<open>chunkSize \<le> 0\<close>, or \<open>chunkOverlap < 0\<close>, or \<open>chunkOverlap \<ge> chunkSize\<close> (the options
  taken with their defaults 512 and 50), and nothing is returned; for every other value of
  the options it does not raise \<open>InvalidArgument\<close>, and the only error it can raise is the
  \<open>TypeError\<close> of an \<open>undefined\<close> capture of a regular-expression separator.
\<close>

theorem chunkText_validates:
  "(chunkSize_of opts \<le> 0 \<or> chunkOverlap_of opts < 0 \<or> chunkSize_of opts \<le> chunkOverlap_of opts
      \<longrightarrow> chunkText text opts = Some (Inl InvalidArgument))
   \<and> (\<not> (chunkSize_of opts \<le> 0 \<or> chunkOverlap_of opts < 0
          \<or> chunkSize_of opts \<le> chunkOverlap_of opts)
      \<longrightarrow> chunkText text opts \<noteq> Some (Inl InvalidArgument)
          \<and> (\<forall>e. chunkText text opts = Some (Inl e) \<longrightarrow>
                e = TypeError \<and> undefined_capture opts text))"
proof (intro conjI impI allI)
  assume "chunkSize_of opts \<le> 0 \<or> chunkOverlap_of opts < 0
      \<or> chunkSize_of opts \<le> chunkOverlap_of opts"
  then show "chunkText text opts = Some (Inl InvalidArgument)"
    by (auto simp: chunkText_def Let_def)
next
  assume "\<not> (chunkSize_of opts \<le> 0 \<or> chunkOverlap_of opts < 0
      \<or> chunkSize_of opts \<le> chunkOverlap_of opts)"
  then show "chunkText text opts \<noteq> Some (Inl InvalidArgument)"
    using chunkText_errors [of "text" opts InvalidArgument] by blast
next
  fix e
  assume "\<not> (chunkSize_of opts \<le> 0 \<or> chunkOverlap_of opts < 0
      \<or> chunkSize_of opts \<le> chunkOverlap_of opts)"
    and "chunkText text opts = Some (Inl e)"
  then show "e = TypeError" and "undefined_capture opts text"
    using chunkText_errors [of "text" opts e] by blast+
qed

theorem chunkText_validates_witness:
  "chunkText (ascii ''test'') \<lparr>chunkSize = Some 0, chunkOverlap = None, separator = None\<rparr>
     = Some (Inl InvalidArgument)
   \<and> chunkText (ascii ''test'') \<lparr>chunkSize = None, chunkOverlap = Some (- 1), separator = None\<rparr>
     = Some (Inl InvalidArgument)
   \<and> chunkText (ascii ''test'') \<lparr>chunkSize = Some 50, chunkOverlap = Some 50, separator = None\<rparr>
     = Some (Inl InvalidArgument)
   \<and> chunkText (ascii ''test'') \<lparr>chunkSize = Some 100, chunkOverlap = None, separator = None\<rparr>
         \<noteq> Some (Inl InvalidArgument)"
  using chunkText_validates [of "\<lparr>chunkSize = Some 0, chunkOverlap = None, separator = None\<rparr>" "ascii ''test''"]
    chunkText_validates [of "\<lparr>chunkSize = None, chunkOverlap = Some (- 1), separator = None\<rparr>" "ascii ''test''"]
    chunkText_validates [of "\<lparr>chunkSize = Some 50, chunkOverlap = Some 50, separator = None\<rparr>" "ascii ''test''"]
    chunkText_validates [of "\<lparr>chunkSize = Some 100, chunkOverlap = None, separator = None\<rparr>" "ascii ''test''"]
  by (simp add: chunkSize_of_def chunkOverlap_of_def DEFAULT_CHUNK_SIZE_def DEFAULT_CHUNK_OVERLAP_def)

lemma trim_blank: "\<forall>c \<in> set s. is_space c \<Longrightarrow> trim s = []"
proof -
  assume "\<forall>c \<in> set s. is_space c"
  then have "dropWhile is_space s = []" by (simp add: dropWhile_eq_Nil_conv)
  then have "trim s = rev (dropWhile is_space (rev []))" by (simp only: trim_def)
  then show ?thesis by simp
qed

lemma set_js_slice: "set (js_slice s p q) \<subseteq> set s"
  by (auto simp: js_slice_def dest: in_set_takeD in_set_dropD)

lemma split_loop_pieces: "x \<in> set (split_loop m s p q) \<Longrightarrow> set x \<subseteq> set s"
proof (induction m s p q rule: split_loop.induct)
  case (1 m s p q)
  note unfold = split_loop.simps [of m s p q]
  show ?case
  proof (cases "q < length s")
    case False
    with "1.prems" show ?thesis using set_js_slice [of s p "length s"] by (simp add: unfold)
  next
    case True
    note q = True
    show ?thesis
    proof (cases "m s q")
      case None
      with q "1.prems" "1.IH"(1) show ?thesis by (simp add: unfold)
    next
      case (Some n)
      show ?thesis
      proof (cases "min (q + n) (length s) = p")
        case True
        with q Some "1.prems" "1.IH"(2) [OF q Some refl] show ?thesis by (simp add: unfold)
      next
        case False
        with q Some "1.prems" have "x = js_slice s p q \<or> x \<in> set (split_loop m s (min (q + n) (length s)) (min (q + n) (length s)))"
          by (simp add: unfold Let_def)
        then show ?thesis
          using "1.IH"(3) [OF q Some refl False] set_js_slice [of s p q] by blast
      qed
    qed
  qed
qed

lemma js_split_pieces: "x \<in> set (js_split m s) \<Longrightarrow> set x \<subseteq> set s"
  using split_loop_pieces [of x m s 0 0]
  by (auto simp: js_split_def split: if_splits option.splits)

lemma js_split_blank:
  assumes "\<forall>c \<in> set s. is_space c"
  shows "filter nonblank (js_split m s) = []"
proof -
  have "\<not> nonblank x" if "x \<in> set (js_split m s)" for x
  proof -
    have "set x \<subseteq> set s" using that by (rule js_split_pieces)
    with assms have "\<forall>c \<in> set x. is_space c" by blast
    then show ?thesis by (simp add: nonblank_def trim_blank)
  qed
  then show ?thesis by (simp add: filter_empty_conv)
qed

lemma captures_pieces: "Some x \<in> set (captures s groups) \<Longrightarrow> set x \<subseteq> set s"
proof -
  assume "Some x \<in> set (captures s groups)"
  then obtain g where "Some x = map_option (\<lambda>(i, j). js_slice s i j) g"
    by (auto simp: captures_def)
  then obtain i j where "x = js_slice s i j" by (cases g) auto
  then show ?thesis using set_js_slice [of s i j] by simp
qed

lemma split_loop_captures_pieces:
  "Some x \<in> set (split_loop_captures m s p q) \<Longrightarrow> set x \<subseteq> set s"
proof (induction m s p q rule: split_loop_captures.induct)
  case (1 m s p q)
  note unfold = split_loop_captures.simps [of m s p q]
  show ?case
  proof (cases "q < length s")
    case False
    with "1.prems" show ?thesis using set_js_slice [of s p "length s"] by (simp add: unfold)
  next
    case True
    note q = True
    show ?thesis
    proof (cases "m s q")
      case None
      with q "1.prems" "1.IH"(1) show ?thesis by (simp add: unfold)
    next
      case (Some r)
      obtain n groups where r: "r = (n, groups)" by (cases r)
      note Some' = Some [unfolded r]
      show ?thesis
      proof (cases "min (q + n) (length s) = p")
        case True
        with q Some' "1.prems" "1.IH"(2) [OF q Some' refl refl] show ?thesis
          by (simp add: unfold)
      next
        case False
        with q Some' "1.prems" have "x = js_slice s p q \<or> Some x \<in> set (captures s groups)
            \<or> Some x \<in> set (split_loop_captures m s (min (q + n) (length s))
                                (min (q + n) (length s)))"
          by (auto simp: unfold Let_def)
        then show ?thesis
          using "1.IH"(3) [OF q Some' refl refl False] set_js_slice [of s p q]
            captures_pieces [of x s groups]
          by blast
      qed
    qed
  qed
qed

lemma js_split_captures_pieces:
  "Some x \<in> set (js_split_captures m s) \<Longrightarrow> set x \<subseteq> set s"
  using split_loop_captures_pieces [of x m s 0 0]
  by (auto simp: js_split_captures_def split: if_splits option.splits)

lemma filter_trim_blank:
  assumes "\<forall>c \<in> set s. is_space c" and "None \<notin> set (js_split_captures m s)"
  shows "filter_trim (js_split_captures m s) = Inr []"
proof -
  have "\<not> nonblank (the y)" if mem: "y \<in> set (js_split_captures m s)" for y
  proof -
    have "y \<noteq> None"
    proof
      assume "y = None"
      with mem assms(2) show False by simp
    qed
    then obtain x where y: "y = Some x" by (cases y) simp_all
    have "set x \<subseteq> set s" using mem y js_split_captures_pieces by blast
    with assms(1) have "\<forall>c \<in> set x. is_space c" by blast
    then show ?thesis by (simp add: y nonblank_def trim_blank)
  qed
  then have "filter nonblank (map the (js_split_captures m s)) = []"
    by (simp add: filter_empty_conv)
  then show ?thesis using assms(2) by (simp add: filter_trim_eq)
qed

lemma splitByBoundary_blank:
  "\<forall>c \<in> set s. is_space c \<Longrightarrow> splitByBoundary s n = []"
  by (simp add: splitByBoundary_def js_split_blank)

text \<open>
  C8 (as amended). For valid options (\<open>chunkSize > 0\<close>, \<open>0 \<le> chunkOverlap < chunkSize\<close>,
  with the defaults 512 and 50): when no separator is given and the text is no longer than
  \<open>chunkSize\<close>, \<open>chunkText\<close> returns the trimmed text alone if it is not empty, and the
  empty sequence otherwise; and a text of white space only, of any length, gives the empty
  sequence when no separator is given, when the separator is a string, and when it is a
  regular expression whose split yields no \<open>undefined\<close> capture.
\<close>

theorem chunkText_fits:
  assumes "0 < chunkSize_of opts" and "0 \<le> chunkOverlap_of opts"
    and "chunkOverlap_of opts < chunkSize_of opts"
  shows "(truthy_separator opts = None \<and> int (length text) \<le> chunkSize_of opts \<longrightarrow>
            chunkText text opts = Some (Inr (if trim text \<noteq> [] then [trim text] else [])))
     \<and> ((\<forall>c \<in> set text. is_space c) \<and> \<not> undefined_capture opts text \<longrightarrow>
            chunkText text opts = Some (Inr []))"
proof (intro conjI impI)
  assume "truthy_separator opts = None \<and> int (length text) \<le> chunkSize_of opts"
  then show "chunkText text opts = Some (Inr (if trim text \<noteq> [] then [trim text] else []))"
    using assms by (simp add: chunkText_def Let_def)
next
  assume a: "(\<forall>c \<in> set text. is_space c) \<and> \<not> undefined_capture opts text"
  then have blank: "\<forall>c \<in> set text. is_space c" by simp
  show "chunkText text opts = Some (Inr [])"
  proof (cases "truthy_separator opts")
    case None
    then show ?thesis
      using assms blank
      by (simp add: chunkText_def Let_def trim_blank splitByBoundary_blank mergeSegments_def)
  next
    case (Some sep)
    show ?thesis
    proof (cases sep)
      case (Literal x)
      with Some show ?thesis
        using assms blank by (simp add: chunkText_def Let_def js_split_blank)
    next
      case (Pattern m)
      with Some a have "None \<notin> set (js_split_captures m text)"
        by (simp add: undefined_capture_def)
      with blank have "filter_trim (js_split_captures m text) = Inr []"
        by (rule filter_trim_blank)
      with Some Pattern show ?thesis
        using assms by (simp add: chunkText_def Let_def)
    qed
  qed
qed

theorem chunkText_fits_witness:
  "chunkText (ascii ''  Hello, world! '') \<lparr>chunkSize = Some 100, chunkOverlap = None, separator = None\<rparr>
     = Some (Inr [ascii ''Hello, world!''])
   \<and> chunkText (ascii ''   '') \<lparr>chunkSize = Some 2, chunkOverlap = Some 1, separator = None\<rparr>
     = Some (Inr [])
   \<and> chunkText [0xD, 0xA]
        \<lparr>chunkSize = Some 10, chunkOverlap = Some 0, separator = Some (Pattern optional_cr_newline)\<rparr>
     = Some (Inr [])"
proof -
  let ?o1 = "\<lparr>chunkSize = Some 100, chunkOverlap = None, separator = None\<rparr>"
  let ?o2 = "\<lparr>chunkSize = Some 2, chunkOverlap = Some 1, separator = None\<rparr>"
  let ?o3 = "\<lparr>chunkSize = Some 10, chunkOverlap = Some 0,
              separator = Some (Pattern optional_cr_newline)\<rparr>"
  have v1: "0 < chunkSize_of ?o1" "0 \<le> chunkOverlap_of ?o1" "chunkOverlap_of ?o1 < chunkSize_of ?o1"
    by (simp_all add: chunkSize_of_def chunkOverlap_of_def DEFAULT_CHUNK_OVERLAP_def)
  have v2: "0 < chunkSize_of ?o2" "0 \<le> chunkOverlap_of ?o2" "chunkOverlap_of ?o2 < chunkSize_of ?o2"
    by (simp_all add: chunkSize_of_def chunkOverlap_of_def)
  have v3: "0 < chunkSize_of ?o3" "0 \<le> chunkOverlap_of ?o3" "chunkOverlap_of ?o3 < chunkSize_of ?o3"
    by (simp_all add: chunkSize_of_def chunkOverlap_of_def)
  have t: "trim (ascii ''  Hello, world! '') = ascii ''Hello, world!''"
    by (simp add: trim_def ascii_def is_space_def)
  have b: "\<forall>c \<in> set (ascii ''   ''). is_space c"
    by (simp add: ascii_def is_space_def)
  have n2: "\<not> undefined_capture ?o2 (ascii ''   '')"
    by (simp add: undefined_capture_def truthy_separator_def)
  have b3: "\<forall>c \<in> set [0xD, 0xA :: 16 word]. is_space c"
    by (simp add: is_space_def)
  have s3: "js_split_captures optional_cr_newline [0xD, 0xA] = [Some [], Some [0xD], Some []]"
    by (simp add: js_split_captures_def split_loop_captures.simps optional_cr_newline_def
        captures_def js_slice_def)
  have n3: "\<not> undefined_capture ?o3 [0xD, 0xA]"
    by (simp add: undefined_capture_def truthy_separator_def s3)
  have "chunkText (ascii ''  Hello, world! '') ?o1 = Some (Inr [ascii ''Hello, world!''])"
    using chunkText_fits [OF v1, of "ascii ''  Hello, world! ''"] t
    by (simp add: truthy_separator_def chunkSize_of_def ascii_def)
  moreover have "chunkText (ascii ''   '') ?o2 = Some (Inr [])"
    using chunkText_fits [OF v2, of "ascii ''   ''"] b n2 by blast
  moreover have "chunkText [0xD, 0xA] ?o3 = Some (Inr [])"
    using chunkText_fits [OF v3, of "[0xD, 0xA]"] b3 n3 by blast
  ultimately show ?thesis by blast
qed

text \<open>
  C8 (as stated) fails in two ways. When the options are not valid the call raises: with
  \<open>chunkSize = 10\<close> alone the overlap is the default 50, and a text of two characters
  raises \<open>InvalidArgument\<close>. And a text of white space only does not give the empty
  sequence when a regular-expression separator leaves an \<open>undefined\<close> capture: for the text
  of one line feed and the separator \<open>/(\r)?\n/\<close>, \<open>split\<close> gives \<open>['', undefined, '']\<close> and
  the filter raises \<open>TypeError\<close>.
\<close>

theorem chunkText_raises_counterexample:
  "int (length (ascii ''hi'')) \<le> 10
   \<and> chunkText (ascii ''hi'') \<lparr>chunkSize = Some 10, chunkOverlap = None, separator = None\<rparr>
       = Some (Inl InvalidArgument)
   \<and> js_split_captures optional_cr_newline [0xA] = [Some [], None, Some []]
   \<and> chunkText [0xA]
        \<lparr>chunkSize = Some 10, chunkOverlap = Some 0, separator = Some (Pattern optional_cr_newline)\<rparr>
       = Some (Inl TypeError)"
proof -
  have s: "js_split_captures optional_cr_newline [0xA] = [Some [], None, Some []]"
    by (simp add: js_split_captures_def split_loop_captures.simps optional_cr_newline_def
        captures_def js_slice_def)
  have "chunkText [0xA]
        \<lparr>chunkSize = Some 10, chunkOverlap = Some 0, separator = Some (Pattern optional_cr_newline)\<rparr>
       = Some (Inl TypeError)"
    by (simp add: chunkText_def chunkSize_of_def chunkOverlap_of_def truthy_separator_def s
        nonblank_def trim_def)
  moreover have "chunkText (ascii ''hi'') \<lparr>chunkSize = Some 10, chunkOverlap = None, separator = None\<rparr>
       = Some (Inl InvalidArgument)"
    by (simp add: chunkText_def chunkSize_of_def chunkOverlap_of_def DEFAULT_CHUNK_OVERLAP_def)
  ultimately show ?thesis using s by (simp add: ascii_def)
qed

lemma length_trim: "length (trim s) \<le> length s"
proof -
  have "length (trim s) \<le> length (dropWhile is_space s)"
    unfolding trim_def using length_dropWhile_le [of is_space "rev (dropWhile is_space s)"]
    by simp
  also have "\<dots> \<le> length s" by (rule length_dropWhile_le)
  finally show ?thesis .
qed

lemma hard_slices_le: "x \<in> set (hard_slices n w) \<Longrightarrow> length x \<le> n"
proof (induction n w rule: hard_slices.induct)
  case (1 maxSize word)
  show ?case
  proof (cases "word = [] \<or> maxSize = 0")
    case True
    with "1.prems" show ?thesis by (simp add: hard_slices.simps [of maxSize word])
  next
    case False
    with "1.prems" have "x = take maxSize word \<or> x \<in> set (hard_slices maxSize (drop maxSize word))"
      by (simp add: hard_slices.simps [of maxSize word])
    then show ?thesis using "1.IH" [OF False] by auto
  qed
qed

lemma words_loop_le:
  "\<forall>x \<in> set pieces. length x \<le> n \<Longrightarrow> length current \<le> n
     \<Longrightarrow> words_loop n (pieces, current) ws = (pieces', current')
     \<Longrightarrow> (\<forall>x \<in> set pieces'. length x \<le> n) \<and> length current' \<le> n"
proof (induction ws arbitrary: pieces current)
  case Nil
  then show ?case by simp
next
  case (Cons word ws)
  have t: "length (trim current) \<le> n"
    using length_trim [of current] Cons.prems(2) by simp
  define flushed where "flushed = (if current \<noteq> [] then pieces @ [trim current] else pieces)"
  have fl: "\<forall>x \<in> set flushed. length x \<le> n"
    using Cons.prems(1) t by (simp add: flushed_def)
  show ?case
  proof (cases "n < length word")
    case True
    have eq: "words_loop n (pieces, current) (word # ws) =
        words_loop n (flushed @ hard_slices n word, []) ws"
      using True by (simp add: flushed_def)
    have w: "words_loop n (flushed @ hard_slices n word, []) ws = (pieces', current')"
      by (rule trans [OF eq [symmetric] Cons.prems(3)])
    have inv: "\<forall>x \<in> set (flushed @ hard_slices n word). length x \<le> n"
      using fl hard_slices_le [of _ n word] by auto
    show ?thesis by (rule Cons.IH [OF inv _ w]) simp
  next
    case False
    define cand where "cand = (if current \<noteq> [] then current @ [0x20] @ word else word)"
    show ?thesis
    proof (cases "length cand \<le> n")
      case True
      have eq: "words_loop n (pieces, current) (word # ws) = words_loop n (pieces, cand) ws"
        using False True by (simp add: cand_def Let_def)
      have w: "words_loop n (pieces, cand) ws = (pieces', current')"
        by (rule trans [OF eq [symmetric] Cons.prems(3)])
      show ?thesis by (rule Cons.IH [OF Cons.prems(1) True w])
    next
      case c: False
      have eq: "words_loop n (pieces, current) (word # ws) = words_loop n (flushed, word) ws"
        using False c by (simp add: cand_def flushed_def Let_def)
      have w: "words_loop n (flushed, word) ws = (pieces', current')"
        by (rule trans [OF eq [symmetric] Cons.prems(3)])
      have lw: "length word \<le> n" using False by simp
      show ?thesis by (rule Cons.IH [OF fl lw w])
    qed
  qed
qed

lemma splitByWords_le: "x \<in> set (splitByWords s n) \<Longrightarrow> length x \<le> n"
proof -
  assume x: "x \<in> set (splitByWords s n)"
  obtain p c where w: "words_loop n ([], []) (js_split WORD_SPLIT s) = (p, c)"
    by (cases "words_loop n ([], []) (js_split WORD_SPLIT s)")
  have inv: "(\<forall>x \<in> set p. length x \<le> n) \<and> length c \<le> n"
    using words_loop_le [OF _ _ w] by simp
  then have "length (trim c) \<le> n" using length_trim [of c] by simp
  with x w inv show ?thesis by (auto simp: splitByWords_def split: if_splits)
qed

lemma splitByBoundary_le: "x \<in> set (splitByBoundary s n) \<Longrightarrow> length x \<le> n"
  by (auto simp: splitByBoundary_def Let_def list_ex_iff not_less split: if_splits
      dest: splitByWords_le)

lemma split_while_fits:
  "length current \<le> n \<Longrightarrow> split_while n ov (pieces, ob, current) = Some (pieces, ob, current)"
  by (subst split_while.simps) simp

lemma merge_loop_le:
  "\<forall>x \<in> set segments. length x \<le> n \<Longrightarrow> \<forall>x \<in> set pieces. length x \<le> n
     \<Longrightarrow> length current \<le> n
     \<Longrightarrow> \<exists>pieces' ob' current'.
           merge_loop n ov (pieces, ob, current) segments = Some (pieces', ob', current')
           \<and> (\<forall>x \<in> set pieces'. length x \<le> n) \<and> length current' \<le> n"
proof (induction segments arbitrary: pieces ob current)
  case Nil
  then show ?case by simp
next
  case (Cons segment segments)
  have seg: "length segment \<le> n" and rest: "\<forall>x \<in> set segments. length x \<le> n"
    using Cons.prems(1) by simp_all
  have t: "length (trim current) \<le> n"
    using length_trim [of current] Cons.prems(3) by simp
  define cand where "cand = current @ (if current \<noteq> [] then [0xA, 0xA] else []) @ segment"
  show ?case
  proof (cases "length cand \<le> n")
    case True
    have eq: "merge_loop n ov (pieces, ob, current) (segment # segments) =
        merge_loop n ov (pieces, ob, cand) segments"
      using True by (simp add: cand_def Let_def)
    show ?thesis unfolding eq by (rule Cons.IH [OF rest Cons.prems(2) True])
  next
    case False
    define flushed where "flushed = (if current \<noteq> [] then pieces @ [trim current] else pieces)"
    define tail where
      "tail = (if current \<noteq> [] \<and> 0 < ov then getOverlapText current ov else ob)"
    define cur where
      "cur = (if tail \<noteq> [] \<and> length segment + length tail + 1 \<le> n
              then tail @ [0x20] @ segment else segment)"
    have p: "\<forall>x \<in> set flushed. length x \<le> n"
      using Cons.prems(2) t by (simp add: flushed_def)
    have c: "length cur \<le> n" using seg by (simp add: cur_def)
    have sw: "split_while n ov (flushed, tail, cur) = Some (flushed, tail, cur)"
      using c by (rule split_while_fits)
    have "merge_loop n ov (pieces, ob, current) (segment # segments) =
        (case split_while n ov (flushed, tail, cur) of
           None \<Rightarrow> None
         | Some st' \<Rightarrow> merge_loop n ov st' segments)"
      unfolding flushed_def tail_def cur_def using False
      by (simp only: merge_loop.simps Let_def cand_def [symmetric] if_False)
    then have eq: "merge_loop n ov (pieces, ob, current) (segment # segments) =
        merge_loop n ov (flushed, tail, cur) segments"
      by (simp add: sw)
    show ?thesis unfolding eq by (rule Cons.IH [OF rest p c])
  qed
qed

lemma mergeSegments_le:
  assumes "\<forall>x \<in> set segments. length x \<le> n"
  shows "\<exists>cs. mergeSegments segments n ov = Some cs \<and> (\<forall>c \<in> set cs. length c \<le> n)"
proof -
  obtain p ob c where m: "merge_loop n ov ([], [], []) segments = Some (p, ob, c)"
    and inv: "\<forall>x \<in> set p. length x \<le> n" "length c \<le> n"
    using merge_loop_le [OF assms, of "[]" "[]" ov "[]"] by auto
  have "length (trim c) \<le> n" using length_trim [of c] inv(2) by simp
  with m inv show ?thesis by (auto simp: mergeSegments_def)
qed

text \<open>
  Without a separator every segment that reaches \<open>mergeSegments\<close> fits, the inner loop
  never runs, and \<open>chunkText\<close> returns fragments of at most \<open>chunkSize\<close> characters.
\<close>

lemma chunkText_bounded_without_separator:
  assumes "0 < chunkSize_of opts" and "0 \<le> chunkOverlap_of opts"
    and "chunkOverlap_of opts < chunkSize_of opts" and "truthy_separator opts = None"
  shows "\<exists>cs. chunkText s opts = Some (Inr cs)
     \<and> (\<forall>c \<in> set cs. int (length c) \<le> chunkSize_of opts)"
proof (cases "int (length s) \<le> chunkSize_of opts")
  case True
  then show ?thesis
    using assms length_trim [of s] by (simp add: chunkText_def Let_def)
next
  case False
  have "\<forall>x \<in> set (splitByBoundary s (nat (chunkSize_of opts))).
      length x \<le> nat (chunkSize_of opts)"
    using splitByBoundary_le by blast
  then obtain cs where
    m: "mergeSegments (splitByBoundary s (nat (chunkSize_of opts))) (nat (chunkSize_of opts))
          (nat (chunkOverlap_of opts)) = Some cs"
    and le: "\<forall>c \<in> set cs. length c \<le> nat (chunkSize_of opts)"
    using mergeSegments_le by blast
  have "\<forall>c \<in> set cs. int (length c) \<le> chunkSize_of opts"
    using le assms(1) by auto
  with m False assms show ?thesis by (simp add: chunkText_def Let_def)
qed

text \<open>
  C1 does not hold of the code. With a separator that does not occur, the text is one
  segment longer than \<open>chunkSize\<close>; \<open>findSplitPoint\<close> looks for a sentence end up to 50
  characters past the target and splits after it, so the first fragment has 12 characters
  for \<open>chunkSize = 10\<close>.
\<close>

theorem chunkText_exceeds_chunkSize:
  "chunkText (ascii ''Hello world. Bye'')
     \<lparr>chunkSize = Some 10, chunkOverlap = Some 0, separator = Some (Literal (ascii '';''))\<rparr>
     = Some (Inr [ascii ''Hello world.'', ascii ''Bye''])
   \<and> length (ascii ''Hello world.'') = 12"
  by (simp add: chunkText_def chunkSize_of_def chunkOverlap_of_def truthy_separator_def
      js_split_def literal_match_def ascii_def js_slice_def nonblank_def trim_def is_space_def
      mergeSegments_def split_while.simps split_loop.simps findSplitPoint_def sentence_end_def
      getOverlapText_def)

section \<open>Properties of the codec\<close>

lemma u32_arith:
  assumes "n < 2 ^ 32"
  shows "(n div 2 ^ 24 mod 256) * 2 ^ 24 + (n div 2 ^ 16 mod 256) * 2 ^ 16
        + (n div 2 ^ 8 mod 256) * 2 ^ 8 + n mod 256 = (n::nat)"
proof -
  have a: "n mod 4294967296 = 16777216 * (n div 16777216 mod 256) + n mod 16777216"
    using mod_mult2_eq [of n 16777216 256] by simp
  have b: "n mod 16777216 = 65536 * (n div 65536 mod 256) + n mod 65536"
    using mod_mult2_eq [of n 65536 256] by simp
  have c: "n mod 65536 = 256 * (n div 256 mod 256) + n mod 256"
    using mod_mult2_eq [of n 256 256] by simp
  have d: "n mod 4294967296 = n" using assms by simp
  show ?thesis using a b c d by simp
qed

lemma u32_roundtrip: "n < 2 ^ 32 \<Longrightarrow> u32_value (u32_bytes n) = n"
proof -
  assume n: "n < 2 ^ 32"
  have "u32_value (u32_bytes n) =
      (n div 2 ^ 24 mod 256) * 2 ^ 24 + (n div 2 ^ 16 mod 256) * 2 ^ 16
        + (n div 2 ^ 8 mod 256) * 2 ^ 8 + n mod 256"
    by (simp add: u32_value_def u32_bytes_def unat_of_nat)
  also have "\<dots> = n" using n by (rule u32_arith)
  finally show ?thesis .
qed

lemma length_u32_bytes: "length (u32_bytes n) = 4"
  by (simp add: u32_bytes_def)

lemma write_at_append:
  "length A = off \<Longrightarrow> length X = length bs \<Longrightarrow> write_at off bs (A @ X @ B) = A @ bs @ B"
  by (simp add: write_at_def)

lemma padding_aligned: "(x + padding_for x) mod 4 = 0"
proof -
  have r: "x mod 4 = 0 \<or> x mod 4 = 1 \<or> x mod 4 = 2 \<or> x mod 4 = 3" by linarith
  have "(x + padding_for x) mod 4 = (x mod 4 + (4 - x mod 4) mod 4) mod 4"
    unfolding padding_for_def by (rule mod_add_left_eq [symmetric])
  also have "\<dots> = 0" using r by (elim disjE) simp_all
  finally show ?thesis .
qed

lemma write_cells_append:
  "length A = off + 4 * vi \<Longrightarrow> length X = 4 * length vals \<Longrightarrow> vi + length vals \<le> n
     \<Longrightarrow> \<forall>v \<in> set vals. length (st v) = 4
     \<Longrightarrow> write_cells st off n vi vals (A @ X @ B) = A @ concat (map st vals) @ B"
proof (induction vals arbitrary: vi A X)
  case Nil
  then show ?case by simp
next
  case (Cons v vals)
  have lv: "length (st v) = 4" using Cons.prems(4) by simp
  have X: "X = take 4 X @ drop 4 X" by simp
  have lt: "length (take 4 X) = 4" using Cons.prems(2) by simp
  have "write_at (off + 4 * vi) (st v) (A @ X @ B) = A @ st v @ (drop 4 X @ B)"
    using write_at_append [of A "off + 4 * vi" "take 4 X" "st v" "drop 4 X @ B"]
      Cons.prems(1) lt lv X
    by (metis append.assoc)
  then have step: "write_cells st off n vi (v # vals) (A @ X @ B) =
      write_cells st off n (vi + 1) vals ((A @ st v) @ drop 4 X @ B)"
    using Cons.prems(3) by simp
  have "write_cells st off n (vi + 1) vals ((A @ st v) @ drop 4 X @ B) =
      (A @ st v) @ concat (map st vals) @ B"
  proof (rule Cons.IH)
    show "length (A @ st v) = off + 4 * (vi + 1)" using Cons.prems(1) lv by simp
    show "length (drop 4 X) = 4 * length vals" using Cons.prems(2) by simp
    show "vi + 1 + length vals \<le> n" using Cons.prems(3) by simp
    show "\<forall>v \<in> set vals. length (st v) = 4" using Cons.prems(4) by simp
  qed
  with step show ?case by simp
qed

lemma read_cell:
  "length A = off \<Longrightarrow> \<forall>v \<in> set vals. length (st v) = 4 \<Longrightarrow> i < length vals
     \<Longrightarrow> take 4 (drop (off + 4 * i) (A @ concat (map st vals))) = st (vals ! i)"
proof (induction vals arbitrary: i A off)
  case Nil
  then show ?case by simp
next
  case (Cons v vals)
  show ?case
  proof (cases i)
    case 0
    then show ?thesis using Cons.prems by simp
  next
    case (Suc j)
    have "take 4 (drop (length (A @ st v) + 4 * j) ((A @ st v) @ concat (map st vals)))
        = st (vals ! j)"
      by (rule Cons.IH) (use Cons.prems Suc in auto)
    moreover have "length (A @ st v) + 4 * j = off + 4 * i"
      using Cons.prems Suc by simp
    ultimately show ?thesis using Suc by simp
  qed
qed

lemma read_cells_written:
  assumes "length A = off" and "\<forall>v \<in> set vals. length (st v) = 4"
  shows "read_cells ld (A @ concat (map st vals)) off (length vals) = map (\<lambda>v. ld (st v)) vals"
proof -
  have "read_cells ld (A @ concat (map st vals)) off (length vals)
      = map (\<lambda>i. ld (st (vals ! i))) [0 ..< length vals]"
    unfolding read_cells_def using read_cell [OF assms] by simp
  also have "\<dots> = map (\<lambda>v. ld (st v)) vals"
    by (rule nth_equalityI) simp_all
  finally show ?thesis .
qed

lemma concat_block:
  "\<forall>x \<in> set xss. length x = d \<Longrightarrow> i < length xss
     \<Longrightarrow> take d (drop (i * d) (concat xss)) = xss ! i"
proof (induction xss arbitrary: i)
  case Nil
  then show ?case by simp
next
  case (Cons x xss)
  show ?case
  proof (cases i)
    case 0
    then show ?thesis using Cons.prems by simp
  next
    case (Suc j)
    then show ?thesis using Cons.prems Cons.IH [of j] by simp
  qed
qed

lemma addAll_ok:
  "\<forall>c \<in> set cs. int (length (embedding c)) = dimensions s
     \<Longrightarrow> addAll s cs = (Inr (), s\<lparr>chunks := chunks s @ cs\<rparr>)"
proof (induction cs arbitrary: s)
  case Nil
  then show ?case by simp
next
  case (Cons c cs)
  have "add s c = (Inr (), s\<lparr>chunks := chunks s @ [c]\<rparr>)"
    using Cons.prems by (simp add: add_def validateDimensions_def)
  moreover have "addAll (s\<lparr>chunks := chunks s @ [c]\<rparr>) cs
      = (Inr (), s\<lparr>chunks := chunks s @ [c]\<rparr>\<lparr>chunks := chunks (s\<lparr>chunks := chunks s @ [c]\<rparr>) @ cs\<rparr>)"
    by (rule Cons.IH) (use Cons.prems in simp)
  ultimately show ?case by simp
qed

lemma setUint32_append:
  "length A = off \<Longrightarrow> setUint32 off v (A @ replicate 4 0 @ B) = Inr (A @ u32_bytes v @ B)"
  using write_at_append [of A off "replicate 4 0" "u32_bytes v" B]
  by (simp add: setUint32_def length_u32_bytes)

lemma uint8_set_append:
  "length A = off \<Longrightarrow> uint8_set bs off (A @ replicate (length bs) 0 @ B) = Inr (A @ bs @ B)"
  using write_at_append [of A off "replicate (length bs) 0" bs B]
  by (simp add: uint8_set_def)

lemma getUint32_append:
  "length A = off \<Longrightarrow> n < 2 ^ 32 \<Longrightarrow> getUint32 (A @ u32_bytes n @ B) off = Inr n"
  by (simp add: getUint32_def length_u32_bytes u32_roundtrip)

lemma length_concat_embeddings:
  "\<forall>c \<in> set cs. int (length (embedding c)) = d
     \<Longrightarrow> int (length (concat (map embedding cs))) = int (length cs) * d"
  by (induction cs) (simp_all add: algebra_simps)

lemma toBinary_image:
  assumes ok: "store_ok s"
    and four: "\<forall>c \<in> set (chunks s). \<forall>v \<in> set (embedding c). length (f32_store P v) = 4"
  shows "toBinary P s = Inr (binary_image P s)"
proof -
  define jb where "jb = encode_meta P (binary_meta (serialize s))"
  define pad where "pad = padding_for (16 + length jb)"
  define vals where "vals = concat (map embedding (chunks s))"
  define N where "N = length vals"
  define H0 where "H0 = u32_bytes MAGIC"
  define H1 where "H1 = H0 @ u32_bytes 1"
  define H2 where "H2 = H1 @ u32_bytes (length jb)"
  define H3 where "H3 = H2 @ u32_bytes (length (chunks s))"
  define H4 where "H4 = H3 @ jb"
  define H5 where "H5 = H4 @ replicate pad 0"
  have lens: "length H0 = 4" "length H1 = 8" "length H2 = 12" "length H3 = 16"
    "length H4 = 16 + length jb" "length H5 = 16 + length jb + pad"
    by (simp_all add: H0_def H1_def H2_def H3_def H4_def H5_def length_u32_bytes)
  have n: "int (length (chunks s)) * dimensions s = int N"
    using length_concat_embeddings [of "chunks s" "dimensions s"] ok
    by (simp add: store_ok_def N_def vals_def)
  have total: "nat (int (16 + length jb + pad) + int (length (chunks s)) * dimensions s * 4)
      = 16 + length jb + pad + 4 * N"
    using n by simp
  have b0: "replicate (16 + length jb + pad + 4 * N) (0::byte) =
      [] @ replicate 4 0 @ replicate 4 0 @ replicate 4 0 @ replicate 4 0
        @ replicate (length jb) 0 @ replicate pad 0 @ replicate (4 * N) 0"
    by (simp add: replicate_add [symmetric])
  have s1: "setUint32 0 MAGIC (replicate (16 + length jb + pad + 4 * N) 0) =
      Inr (H0 @ replicate 4 0 @ replicate 4 0 @ replicate 4 0
        @ replicate (length jb) 0 @ replicate pad 0 @ replicate (4 * N) 0)"
    unfolding b0 H0_def using setUint32_append [of "[]" 0 MAGIC] by simp
  have s2: "setUint32 4 1 (H0 @ replicate 4 0 @ replicate 4 0 @ replicate 4 0
        @ replicate (length jb) 0 @ replicate pad 0 @ replicate (4 * N) 0) =
      Inr (H1 @ replicate 4 0 @ replicate 4 0
        @ replicate (length jb) 0 @ replicate pad 0 @ replicate (4 * N) 0)"
    unfolding H1_def using setUint32_append [of H0 4 1] lens by simp
  have s3: "setUint32 8 (length jb) (H1 @ replicate 4 0 @ replicate 4 0
        @ replicate (length jb) 0 @ replicate pad 0 @ replicate (4 * N) 0) =
      Inr (H2 @ replicate 4 0
        @ replicate (length jb) 0 @ replicate pad 0 @ replicate (4 * N) 0)"
    unfolding H2_def using setUint32_append [of H1 8 "length jb"] lens by simp
  have s4: "setUint32 12 (length (chunks s)) (H2 @ replicate 4 0
        @ replicate (length jb) 0 @ replicate pad 0 @ replicate (4 * N) 0) =
      Inr (H3 @ replicate (length jb) 0 @ replicate pad 0 @ replicate (4 * N) 0)"
    unfolding H3_def using setUint32_append [of H2 12 "length (chunks s)"] lens by simp
  have s5: "uint8_set jb 16 (H3 @ replicate (length jb) 0 @ replicate pad 0
        @ replicate (4 * N) 0) = Inr (H5 @ replicate (4 * N) 0 @ [])"
    unfolding H5_def H4_def using uint8_set_append [of H3 16 jb] lens by simp
  have view: "float32_view_ok (H5 @ replicate (4 * N) 0 @ []) (16 + length jb + pad) (int N)"
    using lens padding_aligned [of "16 + length jb"]
    by (simp add: float32_view_ok_def pad_def add.assoc)
  have four': "\<forall>v \<in> set vals. length (f32_store P v) = 4"
    using four by (auto simp: vals_def)
  have cells: "write_cells (f32_store P) (16 + length jb + pad) N 0 vals
      (H5 @ replicate (4 * N) 0 @ []) = H5 @ concat (map (f32_store P) vals) @ []"
    by (rule write_cells_append) (use lens four' in \<open>simp_all add: N_def\<close>)
  have img: "binary_image P s = H5 @ concat (map (f32_store P) vals) @ []"
    by (simp add: binary_image_def Let_def H5_def H4_def H3_def H2_def H1_def H0_def
        jb_def pad_def vals_def)
  have nonneg: "\<not> int (16 + length jb + pad) + int (length (chunks s)) * dimensions s * 4 < 0"
    using n by simp
  show ?thesis
    unfolding toBinary_def Let_def jb_def [symmetric] pad_def [symmetric]
      vals_def [symmetric] img
    using nonneg total s1 s2 s3 s4 s5 view cells n
    by (simp add: and_then_def INDEX_VERSION_def)
qed

lemma rebuild_chunks_ok:
  assumes len: "\<forall>c \<in> set cs. length (emb c) = d"
  shows "i + k = length cs \<Longrightarrow>
     rebuild_chunks (concat (map emb cs)) (int d) (map to_meta cs) i k =
       Inr (map (\<lambda>c. c\<lparr>embedding := emb c\<rparr>) (drop i cs))"
proof (induction k arbitrary: i)
  case 0
  then show ?case by simp
next
  case (Suc k)
  then have i: "i < length cs" by simp
  have rest: "rebuild_chunks (concat (map emb cs)) (int d) (map to_meta cs) (i + 1) k =
       Inr (map (\<lambda>c. c\<lparr>embedding := emb c\<rparr>) (drop (i + 1) cs))"
    by (rule Suc.IH) (use Suc.prems in simp)
  have "take d (drop (i * d) (concat (map emb cs))) = map emb cs ! i"
    by (rule concat_block) (use len i in simp_all)
  then have block: "take d (drop (i * d) (concat (map emb cs))) = emb (cs ! i)"
    using i by simp
  have a1: "nat (int i * int d) = i * d" by (simp add: nat_mult_distrib)
  have a2: "nat ((int i + 1) * int d) - i * d = d"
    by (simp add: nat_mult_distrib nat_add_distrib algebra_simps)
  have d: "drop i cs = cs ! i # drop (i + 1) cs"
    using i by (simp add: Cons_nth_drop_Suc)
  have c: "\<lparr>chunk_id = id_of (to_meta (cs ! i)), content = content_of (to_meta (cs ! i)),
            metadata = metadata_of (to_meta (cs ! i)), embedding = emb (cs ! i)\<rparr>
         = (cs ! i)\<lparr>embedding := emb (cs ! i)\<rparr>"
    by (simp add: to_meta_def)
  show ?case
    using i rest block c
    by (simp add: and_then_def a1 a2 d del: of_nat_mult of_nat_add)
qed

lemma fromBinary_image:
  assumes ok: "store_ok s"
    and four: "\<forall>c \<in> set (chunks s). \<forall>v \<in> set (embedding c). length (f32_store P v) = 4"
    and json: "decode_meta P (encode_meta P (binary_meta (serialize s)))
                 = Inr (binary_meta (serialize s))"
    and jl: "length (encode_meta P (binary_meta (serialize s))) < 2 ^ 32"
    and cnt: "length (chunks s) < 2 ^ 32"
  shows "fromBinary P (binary_image P s) = Inr (map_embeddings (\<lambda>v. f32_load P (f32_store P v)) s)"
proof -
  define jb where "jb = encode_meta P (binary_meta (serialize s))"
  define pad where "pad = padding_for (16 + length jb)"
  define vals where "vals = concat (map embedding (chunks s))"
  define g where "g = (\<lambda>v. f32_load P (f32_store P v))"
  define H0 where "H0 = u32_bytes MAGIC"
  define H1 where "H1 = H0 @ u32_bytes 1"
  define H2 where "H2 = H1 @ u32_bytes (length jb)"
  define H3 where "H3 = H2 @ u32_bytes (length (chunks s))"
  define H5 where "H5 = H3 @ jb @ replicate pad 0"
  define buf where "buf = binary_image P s"
  have lens: "length H0 = 4" "length H1 = 8" "length H2 = 12" "length H3 = 16"
    "length H5 = 16 + length jb + pad"
    by (simp_all add: H0_def H1_def H2_def H3_def H5_def length_u32_bytes)
  have buf5: "buf = H5 @ concat (map (f32_store P) vals)"
    by (simp add: buf_def binary_image_def Let_def H5_def H3_def H2_def H1_def H0_def
        jb_def pad_def vals_def)
  have four': "\<forall>v \<in> set vals. length (f32_store P v) = 4"
    using four by (auto simp: vals_def)
  have lfl: "length (concat (map (f32_store P) vals)) = 4 * length vals"
    using four' by (induction vals) simp_all
  have n: "int (length (chunks s)) * dimensions s = int (length vals)"
    using length_concat_embeddings [of "chunks s" "dimensions s"] ok
    by (simp add: store_ok_def vals_def)
  have g0: "getUint32 buf 0 = Inr MAGIC"
    using getUint32_append [of "[]" 0 MAGIC]
    by (simp add: buf5 H5_def H3_def H2_def H1_def H0_def MAGIC_def)
  have g4: "getUint32 buf 4 = Inr 1"
    using getUint32_append [of H0 4 1] lens
    by (simp add: buf5 H5_def H3_def H2_def H1_def)
  have g8: "getUint32 buf 8 = Inr (length jb)"
    using getUint32_append [of H1 8 "length jb"] lens jl
    by (simp add: buf5 H5_def H3_def H2_def jb_def)
  have g12: "getUint32 buf 12 = Inr (length (chunks s))"
    using getUint32_append [of H2 12 "length (chunks s)"] lens cnt
    by (simp add: buf5 H5_def H3_def)
  have tj: "take (length jb) (drop 16 buf) = jb"
    using lens by (simp add: buf5 H5_def)
  have meta: "decode_meta P jb = Inr (binary_meta (serialize s))"
    using json by (simp add: jb_def)
  have view: "float32_view_ok buf (16 + length jb + pad) (int (length vals))"
    using lens lfl padding_aligned [of "16 + length jb"]
    by (simp add: float32_view_ok_def pad_def add.assoc buf5)
  have cells: "read_cells (f32_load P) buf (16 + length jb + pad) (length vals) = map g vals"
    unfolding buf5 g_def by (rule read_cells_written) (use lens four' in simp_all)
  have mc: "map g vals = concat (map (\<lambda>c. map g (embedding c)) (chunks s))"
    by (simp add: vals_def map_concat comp_def)
  have metas: "chunkMeta (binary_meta (serialize s)) = map to_meta (chunks s)"
    by (simp add: binary_meta_def serialize_def to_meta_def)
  have dims: "bm_dimensions (binary_meta (serialize s)) = dimensions s"
    and mdl: "bm_model (binary_meta (serialize s)) = model s"
    by (simp_all add: binary_meta_def serialize_def)
  let ?cs' = "map (\<lambda>c. c\<lparr>embedding := map g (embedding c)\<rparr>) (chunks s)"
  have rebuilt: "rebuild_chunks (map g vals) (dimensions s) (map to_meta (chunks s)) 0
      (length (chunks s)) = Inr ?cs'"
  proof (cases "chunks s = []")
    case True
    then show ?thesis by simp
  next
    case False
    then obtain c0 where "c0 \<in> set (chunks s)" by (cases "chunks s") auto
    then have "dimensions s = int (length (embedding c0))"
      using ok by (simp add: store_ok_def)
    then obtain d where d: "dimensions s = int d" by blast
    have "\<forall>c \<in> set (chunks s). length (map g (embedding c)) = d"
      using ok d by (simp add: store_ok_def)
    then have "rebuild_chunks (concat (map (\<lambda>c. map g (embedding c)) (chunks s))) (int d)
        (map to_meta (chunks s)) 0 (length (chunks s)) =
        Inr (map (\<lambda>c. c\<lparr>embedding := map g (embedding c)\<rparr>) (drop 0 (chunks s)))"
      by (rule rebuild_chunks_ok) simp
    then show ?thesis by (simp add: mc d)
  qed
  have all: "\<forall>c \<in> set ?cs'. int (length (embedding c)) =
      dimensions (new_store (Some (model s)) (Some (dimensions s)) :: ('a, 'b) VectorStore)"
    using ok by (simp add: store_ok_def new_store_def)
  have added: "addAll (new_store (Some (model s)) (Some (dimensions s))) ?cs' =
      (Inr (), map_embeddings g s)"
    using addAll_ok [OF all] by (simp add: new_store_def map_embeddings_def)
  have "fromBinary P buf = Inr (map_embeddings g s)"
    unfolding fromBinary_def
    using g0 g4 g8 g12 tj meta view cells rebuilt added n
    by (simp add: and_then_def Let_def INDEX_VERSION_def metas dims mdl pad_def)
  then show ?thesis by (simp add: buf_def g_def)
qed

lemma fromSerialized_serialize:
  "store_ok s \<Longrightarrow> fromSerialized (serialize s) = Inr s"
proof -
  assume ok: "store_ok s"
  have all: "\<forall>c \<in> set (chunks s). int (length (embedding c)) =
      dimensions (new_store (Some (model s)) (Some (dimensions s)) :: ('a, 'b) VectorStore)"
    using ok by (simp add: store_ok_def new_store_def)
  show ?thesis
    using addAll_ok [OF all]
    by (simp add: fromSerialized_def serialize_def new_store_def)
qed

lemma fround_zero: "fround (Fin 0) = Fin 0"
  by (simp add: fround_def fround_real_def)

lemma fround_one: "fround (Fin 1) = Fin 1"
  by (simp add: fround_def fround_real_def f32_exponent_def pow2_def round_half_even_def)

lemma floor_log2_tenth: "\<lfloor>log 2 (1 / 10)\<rfloor> = - 4"
proof (rule floor_unique)
  have "(2::real) powr (- 4) \<le> 1 / 10" by (simp add: powr_minus divide_simps)
  then show "of_int (- 4) \<le> log 2 (1 / 10)" by (simp add: le_log_iff)
  have "(1::real) / 10 < 2 powr (- 3)" by (simp add: powr_minus divide_simps)
  then have "log 2 (1 / 10) < - 3" by (simp add: log_less_iff)
  then show "log 2 (1 / 10) < of_int (- 4) + 1" by simp
qed

lemma fround_tenth: "fround (Fin (1 / 10)) = Fin (13421773 / 134217728)"
proof -
  have e: "f32_exponent (1 / 10) = - 4"
    using floor_log2_tenth by (simp add: f32_exponent_def)
  have p: "pow2 (- 4 - 23) = 1 / 134217728" by (simp add: pow2_def)
  have q: "(1 / 10) / (1 / 134217728 :: real) = 67108864 / 5" by simp
  have f: "\<lfloor>67108864 / 5 :: real\<rfloor> = 13421772" by simp
  have r: "round_half_even (67108864 / 5) = 13421773"
    by (simp add: round_half_even_def f)
  have "fround_real (1 / 10) = 13421773 / 134217728"
    unfolding fround_real_def e p q r by simp
  then show ?thesis by (simp add: fround_def)
qed

lemma map_embeddings_cong:
  "\<forall>c \<in> set (chunks s). \<forall>v \<in> set (embedding c). g v = h v
     \<Longrightarrow> map_embeddings g s = map_embeddings h s"
  by (simp add: map_embeddings_def)

lemma map_embeddings_id:
  "\<forall>c \<in> set (chunks s). \<forall>v \<in> set (embedding c). g v = v \<Longrightarrow> map_embeddings g s = s"
proof -
  assume a: "\<forall>c \<in> set (chunks s). \<forall>v \<in> set (embedding c). g v = v"
  have "map (\<lambda>c. c\<lparr>embedding := map g (embedding c)\<rparr>) (chunks s) = chunks s"
    using a by (simp add: map_idI)
  then show ?thesis by (simp add: map_embeddings_def)
qed

text \<open>
  C2 (as amended). For every index that satisfies the store's invariant, on a platform
  whose JSON text parses back to the values written and whose \<open>Float32Array\<close> cells hold
  numbers narrowed to 32 bits: \<open>fromJSON(toJSON(index))\<close> is the index itself (model name,
  dimensions and the same records, in order); \<open>fromBinary(toBinary(index))\<close> has the same
  model name, dimensions, ids, contents and metadata, in order, and every embedding
  entry narrowed to a 32-bit float, so it is the index itself exactly when every entry
  is a 32-bit float. Both serialize with version 1.
\<close>

theorem codec_roundtrip:
  assumes "store_ok s" and "platform_ok P s"
  shows "fromJSON P (toJSON P s) = Inr s
     \<and> (\<exists>buf. toBinary P s = Inr buf \<and> fromBinary P buf = Inr (map_embeddings fround s))
     \<and> (float32_entries s \<longrightarrow> (\<exists>buf. toBinary P s = Inr buf \<and> fromBinary P buf = Inr s))"
proof -
  have four: "\<forall>c \<in> set (chunks s). \<forall>v \<in> set (embedding c). length (f32_store P v) = 4"
    using assms(2) by (simp add: platform_ok_def)
  have narrow: "\<forall>c \<in> set (chunks s). \<forall>v \<in> set (embedding c).
      f32_load P (f32_store P v) = fround v"
    using assms(2) by (simp add: platform_ok_def)
  have j: "fromJSON P (toJSON P s) = Inr s"
    using assms fromSerialized_serialize [of s]
    by (simp add: fromJSON_def toJSON_def platform_ok_def and_then_def)
  have enc: "toBinary P s = Inr (binary_image P s)"
    using assms(1) four by (rule toBinary_image)
  have "fromBinary P (binary_image P s) =
      Inr (map_embeddings (\<lambda>v. f32_load P (f32_store P v)) s)"
    using assms(1) four by (rule fromBinary_image) (use assms(2) in \<open>simp_all add: platform_ok_def\<close>)
  then have dec: "fromBinary P (binary_image P s) = Inr (map_embeddings fround s)"
    using map_embeddings_cong [OF narrow] by simp
  have "float32_entries s \<Longrightarrow> map_embeddings fround s = s"
    unfolding float32_entries_def by (rule map_embeddings_id)
  with j enc dec show ?thesis by auto
qed

lemma unit_platform_ok: "store_ok unit_store \<and> platform_ok unit_platform unit_store"
  by (simp add: store_ok_def platform_ok_def unit_store_def unit_platform_def serialize_def
      fround_zero fround_one unit_meta_bytes_def)

theorem codec_roundtrip_witness:
  "store_ok unit_store \<and> platform_ok unit_platform unit_store \<and> float32_entries unit_store
   \<and> fromJSON unit_platform (toJSON unit_platform unit_store) = Inr unit_store
   \<and> (\<exists>buf. toBinary unit_platform unit_store = Inr buf
         \<and> fromBinary unit_platform buf = Inr unit_store)"
proof -
  have ok: "store_ok unit_store" and pl: "platform_ok unit_platform unit_store"
    using unit_platform_ok by simp_all
  have fl: "float32_entries unit_store"
    by (auto simp: float32_entries_def unit_store_def fround_zero fround_one)
  show ?thesis using codec_roundtrip [OF ok pl] ok pl fl by blast
qed

lemma tenth_platform_ok: "store_ok tenth_store \<and> platform_ok tenth_platform tenth_store"
  by (simp add: store_ok_def platform_ok_def tenth_store_def tenth_platform_def serialize_def
      fround_tenth tenth_meta_bytes_def)

text \<open>
  C2 (as stated) fails for the binary form: an index of dimension 1 whose record has the
  embedding \<open>[0.1]\<close> comes back with the embedding \<open>[0.100000001490116...]\<close>, because
  \<open>toBinary\<close> stores the entries in a \<open>Float32Array\<close>.
\<close>

theorem binary_roundtrip_counterexample:
  "store_ok tenth_store \<and> platform_ok tenth_platform tenth_store
   \<and> and_then (toBinary tenth_platform tenth_store) (fromBinary tenth_platform)
       = Inr \<lparr>chunks = [\<lparr>chunk_id = ascii ''c1'', content = ascii ''x'', metadata = None,
                          embedding = [Fin (13421773 / 134217728)]\<rparr>],
              model = ascii ''m'', dimensions = 1\<rparr>
   \<and> and_then (toBinary tenth_platform tenth_store) (fromBinary tenth_platform)
       \<noteq> Inr tenth_store"
proof -
  have ok: "store_ok tenth_store" and pl: "platform_ok tenth_platform tenth_store"
    using tenth_platform_ok by simp_all
  have four: "\<forall>c \<in> set (chunks tenth_store). \<forall>v \<in> set (embedding c).
      length (f32_store tenth_platform v) = 4"
    using pl by (simp add: platform_ok_def)
  have enc: "toBinary tenth_platform tenth_store = Inr (binary_image tenth_platform tenth_store)"
    using ok four by (rule toBinary_image)
  have "fromBinary tenth_platform (binary_image tenth_platform tenth_store) =
      Inr (map_embeddings (\<lambda>v. f32_load tenth_platform (f32_store tenth_platform v)) tenth_store)"
    using ok four by (rule fromBinary_image) (use pl in \<open>simp_all add: platform_ok_def\<close>)
  then have "and_then (toBinary tenth_platform tenth_store) (fromBinary tenth_platform)
      = Inr \<lparr>chunks = [\<lparr>chunk_id = ascii ''c1'', content = ascii ''x'', metadata = None,
                          embedding = [Fin (13421773 / 134217728)]\<rparr>],
              model = ascii ''m'', dimensions = 1\<rparr>"
    using enc by (simp add: and_then_def map_embeddings_def tenth_store_def tenth_platform_def)
  then show ?thesis using ok pl by (simp add: tenth_store_def)
qed

text \<open>
  C7 (as amended). For every buffer of at least four bytes, \<open>fromBinary\<close> raises
  \<open>InvalidFormat\<close> when the first four bytes, read big-endian, are not \<open>0x52414753\<close>; for
  every buffer of at least eight bytes whose magic is right, it raises
  \<open>UnsupportedVersion\<close> when the field at offset 4 is not 1. On a buffer that is too short
  for the field read, the \<open>DataView\<close> raises \<open>RangeError\<close>. \<open>fromSerialized\<close> raises
  \<open>UnsupportedVersion\<close> when the version field is not 1, and so does \<open>fromJSON\<close> on a text
  that parses to such a value. In each case no index is returned.
\<close>

theorem decode_rejects:
  "(4 \<le> length buf \<and> u32_value (take 4 buf) \<noteq> MAGIC \<longrightarrow>
      fromBinary P buf = Inl InvalidFormat)
   \<and> (8 \<le> length buf \<and> u32_value (take 4 buf) = MAGIC
        \<and> int (u32_value (take 4 (drop 4 buf))) \<noteq> INDEX_VERSION \<longrightarrow>
      fromBinary P buf = Inl UnsupportedVersion)
   \<and> (si_version d \<noteq> INDEX_VERSION \<longrightarrow> fromSerialized d = Inl UnsupportedVersion)
   \<and> (parse P json = Inr d \<and> si_version d \<noteq> INDEX_VERSION \<longrightarrow>
      fromJSON P json = Inl UnsupportedVersion)
   \<and> (length buf < 4 \<longrightarrow> fromBinary P buf = Inl RangeError)
   \<and> (4 \<le> length buf \<and> length buf < 8 \<and> u32_value (take 4 buf) = MAGIC \<longrightarrow>
      fromBinary P buf = Inl RangeError)"
  by (simp add: fromBinary_def getUint32_def and_then_def fromSerialized_def fromJSON_def)

text \<open>
  C7 (as stated) fails on short buffers: the empty buffer has no magic, and the decoder
  raises \<open>RangeError\<close>, not \<open>InvalidFormat\<close>; a buffer of the magic and two more bytes has no
  version field equal to 1, and the decoder raises \<open>RangeError\<close>, not \<open>UnsupportedVersion\<close>.
\<close>

theorem decode_short_buffer_counterexample:
  "fromBinary unit_platform [] = Inl RangeError
   \<and> fromBinary unit_platform (u32_bytes MAGIC @ [0, 2]) = Inl RangeError"
proof -
  have "u32_value (u32_bytes MAGIC) = MAGIC" by (simp add: u32_roundtrip MAGIC_def)
  then show ?thesis
    by (simp add: fromBinary_def getUint32_def and_then_def length_u32_bytes)
qed

theorem decode_rejects_witness:
  "fromBinary unit_platform (u32_bytes 0x12345678 @ replicate 12 0) = Inl InvalidFormat
   \<and> fromBinary unit_platform (u32_bytes MAGIC @ u32_bytes 2 @ replicate 8 0)
       = Inl UnsupportedVersion
   \<and> fromSerialized ((serialize unit_store)\<lparr>si_version := 999\<rparr>) = Inl UnsupportedVersion
   \<and> fromJSON (unit_platform\<lparr>parse := (\<lambda>t. Inr ((serialize unit_store)\<lparr>si_version := 2\<rparr>))\<rparr>)
        (ascii ''{\"version\":2}'') = Inl UnsupportedVersion"
proof -
  have m: "u32_value (u32_bytes 0x12345678) = 0x12345678" "u32_value (u32_bytes MAGIC) = MAGIC"
    "u32_value (u32_bytes 2) = 2"
    by (simp_all add: u32_roundtrip MAGIC_def)
  have a: "fromBinary unit_platform (u32_bytes 0x12345678 @ replicate 12 0) = Inl InvalidFormat"
    using decode_rejects [of "u32_bytes 0x12345678 @ replicate 12 0" unit_platform] m
    by (simp add: length_u32_bytes MAGIC_def)
  have b: "fromBinary unit_platform (u32_bytes MAGIC @ u32_bytes 2 @ replicate 8 0)
       = Inl UnsupportedVersion"
    using decode_rejects [of "u32_bytes MAGIC @ u32_bytes 2 @ replicate 8 0" unit_platform] m
    by (simp add: length_u32_bytes INDEX_VERSION_def)
  have c: "fromSerialized ((serialize unit_store)\<lparr>si_version := 999\<rparr>) = Inl UnsupportedVersion"
    using decode_rejects [of "[]" unit_platform "(serialize unit_store)\<lparr>si_version := 999\<rparr>"]
    by (simp add: INDEX_VERSION_def)
  have d: "fromJSON (unit_platform\<lparr>parse := (\<lambda>t. Inr ((serialize unit_store)\<lparr>si_version := 2\<rparr>))\<rparr>)
        (ascii ''{\"version\":2}'') = Inl UnsupportedVersion"
    using decode_rejects [of "[]" "unit_platform\<lparr>parse := (\<lambda>t. Inr ((serialize unit_store)\<lparr>si_version := 2\<rparr>))\<rparr>"
        "(serialize unit_store)\<lparr>si_version := 2\<rparr>" "ascii ''{\"version\":2}''"]
    by (simp add: INDEX_VERSION_def)
  show ?thesis using a b c d by blast
qed

end
